theory Spec2Isabelle
  imports Complex_Main
begin

section \<open>Gaussian Cube importer: a shallow embedding\<close>

text \<open>
  The development follows \<^verbatim>\<open>src/cube_blender/__init__.py\<close> (functions
  \<^verbatim>\<open>read_vdb_grids\<close> and \<^verbatim>\<open>load_cube\<close>) and the older single-file add-on
  \<^verbatim>\<open>src/import_cube_addon.py\<close> (function \<^verbatim>\<open>load_cube\<close>).

  Text is a list of characters; a character stands for one code point below 256.
  Python integers are \<^typ>\<open>int\<close>. Floating-point numbers are a type parameter
  \<open>'f\<close> with a zero, a one and a multiplication; the library routines that produce
  them (\<^verbatim>\<open>float\<close>, \<^verbatim>\<open>numpy.fromstring\<close>, \<^verbatim>\<open>astype\<close>,
  \<^verbatim>\<open>openvdb.createLinearTransform\<close>) are parameters of the model, collected in a
  record. Exceptions are values of the type \<open>error\<close>; a loop that need not
  terminate yields \<open>None\<close>. Resource limits (memory, the width of NumPy's sizes)
  are not modelled.
\<close>

subsection \<open>Exceptions\<close>

datatype error =
    ValueError
  | IndexError
  | OSError
  | LibraryError
  | RuntimeError string

definition ebind :: "error + 'a \<Rightarrow> ('a \<Rightarrow> error + 'b) \<Rightarrow> error + 'b" where
  "ebind r f = (case r of Inl e \<Rightarrow> Inl e | Inr x \<Rightarrow> f x)"

subsection \<open>Characters, lines and tokens\<close>

definition is_digit :: "char \<Rightarrow> bool" where
  "is_digit c = (48 \<le> (of_char c :: nat) \<and> (of_char c :: nat) \<le> 57)"

text \<open>The characters that \<^verbatim>\<open>str.split()\<close> treats as white space (below 256).\<close>

definition is_space :: "char \<Rightarrow> bool" where
  "is_space c =
     (let n = (of_char c :: nat)
      in (9 \<le> n \<and> n \<le> 13) \<or> (28 \<le> n \<and> n \<le> 32) \<or> n = 133 \<or> n = 160)"

text \<open>\<^verbatim>\<open>f.readline()\<close> on the rest of a text stream: the line with its newline, and
  what follows. At the end of the stream the line is empty.\<close>

fun readline :: "string \<Rightarrow> string \<times> string" where
  "readline [] = ([], [])"
| "readline (c # cs) =
     (if c = CHR 0x0A then ([c], cs)
      else (case readline cs of (l, r) \<Rightarrow> (c # l, r)))"

text \<open>\<^verbatim>\<open>s.split()\<close>: the maximal runs of characters that are not white space.\<close>

fun split_acc :: "string \<Rightarrow> string \<Rightarrow> string list" where
  "split_acc cur [] = (if cur = [] then [] else [cur])"
| "split_acc cur (c # cs) =
     (if is_space c then (if cur = [] then split_acc [] cs else cur # split_acc [] cs)
      else split_acc (cur @ [c]) cs)"

definition split_ws :: "string \<Rightarrow> string list" where
  "split_ws s = split_acc [] s"

subsection \<open>Integers and their decimal text\<close>

definition digit_val :: "char \<Rightarrow> nat" where
  "digit_val c = of_char c - 48"

definition digits_value :: "string \<Rightarrow> nat" where
  "digits_value s = foldl (\<lambda>acc c. 10 * acc + digit_val c) 0 s"

text \<open>The text \<^verbatim>\<open>int()\<close> accepts after the sign: decimal digits, single underscores
  allowed between two digits.\<close>

fun int_body_ok :: "string \<Rightarrow> bool" where
  "int_body_ok [] = False"
| "int_body_ok [c] = is_digit c"
| "int_body_ok (c # d # cs) =
     (if is_digit c then
        (if d = CHR ''_'' then int_body_ok cs else int_body_ok (d # cs))
      else False)"

definition int_body :: "string \<Rightarrow> int option" where
  "int_body s = (if int_body_ok s then Some (int (digits_value (filter is_digit s))) else None)"

text \<open>\<^verbatim>\<open>int(s)\<close> for a token without surrounding white space; \<open>None\<close> is ValueError.\<close>

definition py_int :: "string \<Rightarrow> int option" where
  "py_int s =
     (case s of
        [] \<Rightarrow> None
      | c # cs \<Rightarrow>
          if c = CHR ''+'' then int_body cs
          else if c = CHR ''-'' then map_option uminus (int_body cs)
          else int_body s)"

definition digit_char :: "nat \<Rightarrow> char" where
  "digit_char n = char_of (48 + n)"

function nat_digits :: "nat \<Rightarrow> string" where
  "nat_digits n = (if n < 10 then [digit_char n] else nat_digits (n div 10) @ [digit_char (n mod 10)])"
  by pat_completeness auto
termination
  by (relation "measure id") auto

declare nat_digits.simps [simp del]

text \<open>\<^verbatim>\<open>str(i)\<close> and \<^verbatim>\<open>f"{i}"\<close> for an integer.\<close>

definition py_str :: "int \<Rightarrow> string" where
  "py_str i = (if i < 0 then CHR ''-'' # nat_digits (nat (- i)) else nat_digits (nat i))"

text \<open>\<^verbatim>\<open>[conv(x) for x in toks]\<close>: the first token that does not convert raises
  ValueError.\<close>

fun parse_all :: "(string \<Rightarrow> 'a option) \<Rightarrow> string list \<Rightarrow> error + 'a list" where
  "parse_all p [] = Inr []"
| "parse_all p (t # ts) =
     (case p t of
        None \<Rightarrow> Inl ValueError
      | Some v \<Rightarrow> (case parse_all p ts of Inl e \<Rightarrow> Inl e | Inr vs \<Rightarrow> Inr (v # vs)))"

subsection \<open>The transform matrix\<close>

text \<open>\<^verbatim>\<open>np.identity(4)\<close>, as a list of rows.\<close>

definition identity4 :: "'f::{zero,one} list list" where
  "identity4 = [[1, 0, 0, 0], [0, 1, 0, 0], [0, 0, 1, 0], [0, 0, 0, 1]]"

text \<open>\<^verbatim>\<open>mat[r, :3] = vs\<close>: NumPy broadcasts a vector of three values or of one value
  into the three places, and raises ValueError for any other length.\<close>

definition assign_row3 :: "nat \<Rightarrow> 'f list \<Rightarrow> 'f list list \<Rightarrow> error + 'f list list" where
  "assign_row3 r vs mat =
     (if length vs = 3 then Inr (mat[r := vs @ drop 3 (mat ! r)])
      else if length vs = 1 then Inr (mat[r := replicate 3 (hd vs) @ drop 3 (mat ! r)])
      else Inl ValueError)"

text \<open>Lines 169 to 173 of \<^verbatim>\<open>read_vdb_grids\<close>: the matrix handed to
  \<^verbatim>\<open>createLinearTransform\<close>.\<close>

definition transform_matrix ::
  "'f::{zero,one,times} list \<Rightarrow> 'f list \<Rightarrow> 'f list \<Rightarrow> 'f list \<Rightarrow> 'f \<Rightarrow> error + 'f list list" where
  "transform_matrix v1 v2 v3 origin scale =
     ebind (assign_row3 0 (map (\<lambda>x. x * scale) v1) identity4) (\<lambda>m0.
     ebind (assign_row3 1 (map (\<lambda>x. x * scale) v2) m0) (\<lambda>m1.
     ebind (assign_row3 2 (map (\<lambda>x. x * scale) v3) m1) (\<lambda>m2.
     assign_row3 3 (map (\<lambda>x. x * scale) origin) m2)))"

subsection \<open>Library routines taken as parameters\<close>

text \<open>
  \<open>py_float\<close> is \<^verbatim>\<open>float(s)\<close> (\<open>None\<close>: ValueError); \<open>np_fromstring\<close> is
  \<^verbatim>\<open>np.fromstring(content, sep=' ')\<close>, the tokenized payload; \<open>astype_float32\<close>
  converts one value to 32 bits; \<open>createLinearTransform\<close> is OpenVDB's constructor
  (\<open>None\<close>: it raises).
\<close>

record ('f, 'g, 't) numlib =
  py_float :: "string \<Rightarrow> 'f option"
  np_fromstring :: "string \<Rightarrow> 'f list"
  astype_float32 :: "'f \<Rightarrow> 'g"
  createLinearTransform :: "'f list list \<Rightarrow> 't option"

subsection \<open>The header\<close>

record 'f geometry =
  geo_multi :: bool
  geo_atoms :: int
  geo_origin :: "'f list"
  geo_n1 :: int
  geo_v1 :: "'f list"
  geo_n2 :: int
  geo_v2 :: "'f list"
  geo_n3 :: int
  geo_v3 :: "'f list"

text \<open>\<^verbatim>\<open>n = int(line[0]); v = np.array([float(x) for x in line[1:4]])\<close>.\<close>

definition read_count_vector ::
  "(string \<Rightarrow> 'f option) \<Rightarrow> string list \<Rightarrow> error + (int \<times> 'f list)" where
  "read_count_vector pf line =
     (case line of
        [] \<Rightarrow> Inl IndexError
      | t # ts \<Rightarrow>
          (case py_int t of
             None \<Rightarrow> Inl ValueError
           | Some n \<Rightarrow> ebind (parse_all pf (take 3 ts)) (\<lambda>v. Inr (n, v))))"

text \<open>\<^verbatim>\<open>for _ in range(n): f.readline()\<close>.\<close>

fun skip_lines :: "nat \<Rightarrow> string \<Rightarrow> string" where
  "skip_lines 0 s = s"
| "skip_lines (Suc k) s = skip_lines k (snd (readline s))"

text \<open>
  Sections 1 to 4 of the parser: two title lines, the atom count with the origin,
  three axis lines, the atom lines skipped. \<open>guard\<close> tells whether the empty third
  line is checked (\<^verbatim>\<open>if not line: raise ValueError\<close>): \<^verbatim>\<open>read_vdb_grids\<close> checks
  it, the older \<^verbatim>\<open>load_cube\<close> does not. The result is the geometry and the rest of
  the stream.
\<close>

definition read_geometry ::
  "bool \<Rightarrow> (string \<Rightarrow> 'f option) \<Rightarrow> string \<Rightarrow> error + ('f geometry \<times> string)" where
  "read_geometry guard pf s0 =
     (case readline s0 of (header1, s1) \<Rightarrow>
      case readline s1 of (header2, s2) \<Rightarrow>
      case readline s2 of (l3, s3) \<Rightarrow>
        if guard \<and> split_ws l3 = [] then Inl ValueError
        else
          ebind (read_count_vector pf (split_ws l3)) (\<lambda>(n_atoms, origin).
          case readline s3 of (l4, s4) \<Rightarrow>
          ebind (read_count_vector pf (split_ws l4)) (\<lambda>(n1, v1).
          case readline s4 of (l5, s5) \<Rightarrow>
          ebind (read_count_vector pf (split_ws l5)) (\<lambda>(n2, v2).
          case readline s5 of (l6, s6) \<Rightarrow>
          ebind (read_count_vector pf (split_ws l6)) (\<lambda>(n3, v3).
            Inr (\<lparr>geo_multi = (n_atoms < 0), geo_atoms = \<bar>n_atoms\<bar>, geo_origin = origin,
                   geo_n1 = n1, geo_v1 = v1, geo_n2 = n2, geo_v2 = v2,
                   geo_n3 = n3, geo_v3 = v3\<rparr>,
                 skip_lines (nat \<bar>n_atoms\<bar>) s6))))))"

text \<open>
  \<^verbatim>\<open>while len(current_indices) < n_mo: line = f.readline().split();
  current_indices.extend([int(x) for x in line])\<close>. At the end of the stream
  \<^verbatim>\<open>readline\<close> keeps returning the empty line, and the loop does not end.
\<close>

partial_function (option) read_more_indices ::
  "int \<Rightarrow> int list \<Rightarrow> string \<Rightarrow> (error + (int list \<times> string)) option" where
  "read_more_indices n_mo current s =
     (if int (length current) < n_mo then
        (case readline s of (l, s') \<Rightarrow>
           (case parse_all py_int (split_ws l) of
              Inl e \<Rightarrow> Some (Inl e)
            | Inr xs \<Rightarrow> read_more_indices n_mo (current @ xs) s'))
      else Some (Inr (current, s)))"

text \<open>Section 5: the field count, the declared indices, the rest of the stream.\<close>

definition read_mo_header ::
  "bool \<Rightarrow> string \<Rightarrow> (error + (int \<times> int list \<times> string)) option" where
  "read_mo_header is_multi_mo s =
     (if is_multi_mo then
        (case readline s of (l, s') \<Rightarrow>
          (case split_ws l of
             [] \<Rightarrow> Some (Inl IndexError)
           | t # ts \<Rightarrow>
               (let n_mo = (case py_int t of None \<Rightarrow> 1 | Some n \<Rightarrow> n)
                in case parse_all py_int ts of
                     Inl e \<Rightarrow> Some (Inl e)
                   | Inr current \<Rightarrow>
                       if n_mo > 1 then
                         (case read_more_indices n_mo current s' of
                            None \<Rightarrow> None
                          | Some (Inl e) \<Rightarrow> Some (Inl e)
                          | Some (Inr (cur, s'')) \<Rightarrow> Some (Inr (n_mo, take (nat n_mo) cur, s'')))
                       else if n_mo = 1 \<and> current \<noteq> [] then Some (Inr (n_mo, take 1 current, s'))
                       else Some (Inr (n_mo, [], s')))))
      else Some (Inr (1, [], s)))"

record 'f cube =
  cube_geo :: "'f geometry"
  cube_n_mo :: int
  cube_indices :: "int list"
  cube_content :: string

text \<open>The whole header parser; \<open>cube_content\<close> is \<^verbatim>\<open>f.read()\<close>.\<close>

definition parse_cube ::
  "bool \<Rightarrow> (string \<Rightarrow> 'f option) \<Rightarrow> string \<Rightarrow> (error + 'f cube) option" where
  "parse_cube guard pf text =
     (case read_geometry guard pf text of
        Inl e \<Rightarrow> Some (Inl e)
      | Inr (geo, s) \<Rightarrow>
          (case read_mo_header (geo_multi geo) s of
             None \<Rightarrow> None
           | Some (Inl e) \<Rightarrow> Some (Inl e)
           | Some (Inr (n_mo, idx, content)) \<Rightarrow>
               Some (Inr \<lparr>cube_geo = geo, cube_n_mo = n_mo, cube_indices = idx,
                          cube_content = content\<rparr>)))"

subsection \<open>The payload\<close>

text \<open>\<^verbatim>\<open>data[:e]\<close>: a negative \<open>e\<close> counts from the end.\<close>

definition py_slice_to :: "int \<Rightarrow> 'a list \<Rightarrow> 'a list" where
  "py_slice_to e xs = (if 0 \<le> e then take (nat e) xs else take (nat (int (length xs) + e)) xs)"

text \<open>Lines 154 to 159: truncate or pad with zeros (\<^verbatim>\<open>np.pad\<close>).\<close>

definition reconcile :: "int \<Rightarrow> 'f::zero list \<Rightarrow> 'f list" where
  "reconcile expected_len data =
     (if int (length data) \<noteq> expected_len then
        (if int (length data) > expected_len then py_slice_to expected_len data
         else data @ replicate (nat (expected_len - int (length data))) 0)
      else data)"

text \<open>
  The shape NumPy's \<^verbatim>\<open>reshape\<close> settles on for an array of \<open>sz\<close> values: a
  negative entry is the one unknown dimension, inferred from the size; two of them,
  a size the known dimensions do not divide, or a product different from the size
  raise ValueError.
\<close>

definition resolve_shape :: "int list \<Rightarrow> nat \<Rightarrow> error + nat list" where
  "resolve_shape dims sz =
     (let unknown = filter (\<lambda>d. d < 0) dims;
          s_known = prod_list (filter (\<lambda>d. 0 \<le> d) dims)
      in if length unknown > 1 then Inl ValueError
         else if length unknown = 1 then
           (if s_known = 0 \<or> int sz mod s_known \<noteq> 0 then Inl ValueError
            else Inr (map (\<lambda>d. if d < 0 then nat (int sz div s_known) else nat d) dims))
         else if int sz \<noteq> s_known then Inl ValueError
         else Inr (map nat dims))"

text \<open>A reshaped array is a nested list, in row-major order: \<open>r\<close> rows of \<open>n\<close>
  values each.\<close>

definition split_rows :: "nat \<Rightarrow> nat \<Rightarrow> 'a list \<Rightarrow> 'a list list" where
  "split_rows r n xs = map (\<lambda>i. take n (drop (i * n) xs)) [0..<r]"

definition reshape3 :: "nat \<Rightarrow> nat \<Rightarrow> nat \<Rightarrow> 'a list \<Rightarrow> 'a list list list" where
  "reshape3 a b c xs = map (split_rows b c) (split_rows a (b * c) xs)"

definition reshape4 :: "nat \<Rightarrow> nat \<Rightarrow> nat \<Rightarrow> nat \<Rightarrow> 'a list \<Rightarrow> 'a list list list list" where
  "reshape4 a b c d xs = map (reshape3 b c d) (split_rows a (b * c * d) xs)"

datatype 'a ndarray =
    Array3 "'a list list list"
  | Array4 "'a list list list list"

text \<open>Lines 161 to 164.\<close>

definition reshape_data :: "int \<Rightarrow> int \<Rightarrow> int \<Rightarrow> int \<Rightarrow> 'a list \<Rightarrow> error + 'a ndarray" where
  "reshape_data n1 n2 n3 n_mo data =
     (if n_mo > 1 then
        ebind (resolve_shape [n1, n2, n3, n_mo] (length data)) (\<lambda>sh.
          Inr (Array4 (reshape4 (sh ! 0) (sh ! 1) (sh ! 2) (sh ! 3) data)))
      else
        ebind (resolve_shape [n1, n2, n3] (length data)) (\<lambda>sh.
          Inr (Array3 (reshape3 (sh ! 0) (sh ! 1) (sh ! 2) data))))"

text \<open>Lines 152 to 164: the payload decoder, from the tokenized payload.\<close>

definition decode_payload ::
  "int \<Rightarrow> int \<Rightarrow> int \<Rightarrow> int \<Rightarrow> 'f::zero list \<Rightarrow> error + 'f ndarray" where
  "decode_payload n1 n2 n3 n_mo tokens =
     reshape_data n1 n2 n3 n_mo (reconcile (n1 * n2 * n3 * n_mo) tokens)"

text \<open>\<^verbatim>\<open>data[:, :, :, m]\<close> of a four-dimensional array, the array itself otherwise.
  The last axis has \<open>n_mo\<close> entries and \<open>m\<close> runs below \<open>n_mo\<close>, so the index is in
  range.\<close>

definition vol_data :: "'a ndarray \<Rightarrow> nat \<Rightarrow> 'a list list list" where
  "vol_data arr m =
     (case arr of
        Array4 d \<Rightarrow> map (map (map (\<lambda>v. v ! m))) d
      | Array3 d \<Rightarrow> d)"

definition flatten3 :: "'a list list list \<Rightarrow> 'a list" where
  "flatten3 d = concat (concat d)"



subsection \<open>Grid records\<close>

datatype naming_mode = MO_INDICES | SEQUENTIAL

datatype grid_class = FOG_VOLUME

record ('g, 't) grid =
  g_name :: string
  g_voxels :: "'g list list list"
  g_transform :: 't
  g_class :: grid_class

text \<open>Lines 183 to 195 of \<^verbatim>\<open>read_vdb_grids\<close>. \<^verbatim>\<open>mo_indices[m]\<close> raises IndexError out
  of range.\<close>

definition grid_name_for ::
  "string option \<Rightarrow> bool \<Rightarrow> naming_mode \<Rightarrow> int list \<Rightarrow> int \<Rightarrow> nat \<Rightarrow> error + string" where
  "grid_name_for force_grid_name is_multi_mo naming mo_indices n_mo m =
     (case force_grid_name of
        Some base \<Rightarrow>
          if n_mo > 1 then Inr (base @ ''_'' @ py_str (int m + 1)) else Inr base
      | None \<Rightarrow>
          if is_multi_mo then
            (if naming = MO_INDICES \<and> mo_indices \<noteq> [] then
               (if m < length mo_indices then Inr (py_str (mo_indices ! m)) else Inl IndexError)
             else Inr (py_str (int m + 1)))
          else Inr ''Density'')"

text \<open>Lines 205 to 211 of the older \<^verbatim>\<open>load_cube\<close>: no forced name, and a prefix.\<close>

definition addon_grid_name ::
  "bool \<Rightarrow> naming_mode \<Rightarrow> int list \<Rightarrow> nat \<Rightarrow> error + string" where
  "addon_grid_name is_multi_mo naming mo_indices m =
     (if is_multi_mo then
        (if naming = MO_INDICES \<and> mo_indices \<noteq> [] then
           (if m < length mo_indices then Inr (''MO_'' @ py_str (mo_indices ! m))
            else Inl IndexError)
         else Inr (''MO_'' @ py_str (int m + 1)))
      else Inr ''Density'')"

text \<open>A loop that appends one result per element and stops at the first exception.\<close>

fun mapE :: "('a \<Rightarrow> error + 'b) \<Rightarrow> 'a list \<Rightarrow> error + 'b list" where
  "mapE f [] = Inr []"
| "mapE f (x # xs) =
     (case f x of
        Inl e \<Rightarrow> Inl e
      | Inr y \<Rightarrow> (case mapE f xs of Inl e \<Rightarrow> Inl e | Inr ys \<Rightarrow> Inr (y # ys)))"

definition make_grid ::
  "('f, 'g, 't) numlib \<Rightarrow> 'f ndarray \<Rightarrow> 't \<Rightarrow> (nat \<Rightarrow> error + string) \<Rightarrow> nat \<Rightarrow>
   error + ('g, 't) grid" where
  "make_grid lib arr tr naming m =
     ebind (naming m) (\<lambda>nm.
       Inr \<lparr>g_name = nm,
            g_voxels = map (map (map (astype_float32 lib))) (vol_data arr m),
            g_transform = tr,
            g_class = FOG_VOLUME\<rparr>)"

text \<open>Lines 152 to 204, after the warning: decode, build the transform, make the
  grids. \<open>naming\<close> is the naming rule of the caller.\<close>

definition assemble ::
  "('f::{zero,one,times}, 'g, 't) numlib \<Rightarrow> 'f cube \<Rightarrow> 'f list \<Rightarrow> 'f \<Rightarrow>
   (nat \<Rightarrow> error + string) \<Rightarrow> error + ('g, 't) grid list" where
  "assemble lib c data scale naming =
     (let geo = cube_geo c in
      ebind (decode_payload (geo_n1 geo) (geo_n2 geo) (geo_n3 geo) (cube_n_mo c) data) (\<lambda>arr.
      ebind (transform_matrix (geo_v1 geo) (geo_v2 geo) (geo_v3 geo) (geo_origin geo) scale) (\<lambda>mat.
        (case createLinearTransform lib mat of
           None \<Rightarrow> Inl LibraryError
         | Some tr \<Rightarrow> mapE (make_grid lib arr tr naming) [0..<nat (cube_n_mo c)]))))"


subsection \<open>The world: files, directory listings, the writer's calls, the log\<close>

datatype event =
    ReadingCube string
  | LengthWarning int nat
  | SequencePattern string string
  | FoundSequence nat
  | NoSequenceFiles
  | NoDigits
  | ErrorReading string error
  | WritingGrids nat string
  | Finished

text \<open>
  \<open>w_files\<close> gives the text of a readable file, \<open>w_listdir\<close> is \<^verbatim>\<open>os.listdir\<close>
  (\<open>None\<close>: OSError), \<open>w_written\<close> the calls of \<^verbatim>\<open>openvdb.write\<close>, \<open>w_imported\<close>
  those of \<^verbatim>\<open>bpy.ops.object.volume_import\<close>, \<open>w_log\<close> what is printed (the elapsed
  time left out).
\<close>

record ('g, 't) world =
  w_files :: "string \<Rightarrow> string option"
  w_listdir :: "string \<Rightarrow> string list option"
  w_written :: "(string \<times> ('g, 't) grid list) list"
  w_imported :: "string list"
  w_log :: "event list"

definition print_event :: "event \<Rightarrow> ('g, 't) world \<Rightarrow> ('g, 't) world" where
  "print_event e w = w\<lparr>w_log := w_log w @ [e]\<rparr>"

text \<open>\<^verbatim>\<open>read_vdb_grids(filepath, scale, naming_mode, force_grid_name)\<close>: the result or
  the exception, and the world after it; \<open>None\<close> when the index loop does not end.\<close>

definition read_vdb_grids ::
  "('f::{zero,one,times}, 'g, 't) numlib \<Rightarrow> ('g, 't) world \<Rightarrow> string \<Rightarrow> 'f \<Rightarrow> naming_mode \<Rightarrow>
   string option \<Rightarrow> ((error + ('g, 't) grid list) \<times> ('g, 't) world) option" where
  "read_vdb_grids lib w filepath scale naming force_grid_name =
     (let w1 = print_event (ReadingCube filepath) w in
      case w_files w filepath of
        None \<Rightarrow> Some (Inl OSError, w1)
      | Some text \<Rightarrow>
          (case parse_cube True (py_float lib) text of
             None \<Rightarrow> None
           | Some (Inl e) \<Rightarrow> Some (Inl e, w1)
           | Some (Inr c) \<Rightarrow>
               (let data = np_fromstring lib (cube_content c);
                    geo = cube_geo c;
                    expected_len = geo_n1 geo * geo_n2 geo * geo_n3 geo * cube_n_mo c;
                    w2 = (if int (length data) \<noteq> expected_len
                          then print_event (LengthWarning expected_len (length data)) w1
                          else w1)
                in Some (assemble lib c data scale
                           (grid_name_for force_grid_name (geo_multi geo) naming
                              (cube_indices c) (cube_n_mo c)),
                         w2))))"

subsection \<open>Paths (\<^verbatim>\<open>posixpath\<close>)\<close>

definition slash :: char where
  "slash = CHR ''/''"

definition dot :: char where
  "dot = CHR ''.''"

definition basename :: "string \<Rightarrow> string" where
  "basename p = rev (takeWhile (\<lambda>c. c \<noteq> slash) (rev p))"

definition dirname :: "string \<Rightarrow> string" where
  "dirname p =
     (let head = rev (dropWhile (\<lambda>c. c \<noteq> slash) (rev p))
      in if head \<noteq> [] \<and> list_ex (\<lambda>c. c \<noteq> slash) head
         then rev (dropWhile (\<lambda>c. c = slash) (rev head))
         else head)"

text \<open>\<^verbatim>\<open>os.path.splitext\<close>: the extension starts at the last dot of the last
  component, unless only dots precede it there.\<close>

definition splitext :: "string \<Rightarrow> string \<times> string" where
  "splitext p =
     (let b = basename p;
          ext = rev (takeWhile (\<lambda>c. c \<noteq> dot) (rev b));
          stem = take (length b - length ext - 1) b
      in if dot \<in> set b \<and> list_ex (\<lambda>c. c \<noteq> dot) stem
         then (take (length p - length ext - 1) p, dot # ext)
         else (p, []))"

definition path_join :: "string \<Rightarrow> string \<Rightarrow> string" where
  "path_join a b =
     (if b \<noteq> [] \<and> hd b = slash then b
      else if a = [] \<or> last a = slash then a @ b
      else a @ [slash] @ b)"

subsection \<open>Sequence detection\<close>

text \<open>
  \<^verbatim>\<open>re.search(r'(\d+)(?=(\.[^.]+)$)', filename)\<close>: the leftmost run of digits that is
  followed by a dot and one or more characters other than a dot up to the end of the
  name. The run found is the whole run of digits before the last dot. The result is
  the prefix, the digits and the suffix.
\<close>

definition find_sequence_digits :: "string \<Rightarrow> (string \<times> string \<times> string) option" where
  "find_sequence_digits filename =
     (let ext = rev (takeWhile (\<lambda>c. c \<noteq> dot) (rev filename));
          stem = take (length filename - length ext - 1) filename;
          digits = rev (takeWhile is_digit (rev stem))
      in if dot \<in> set filename \<and> ext \<noteq> [] \<and> digits \<noteq> []
         then Some (take (length stem - length digits) stem, digits, dot # ext)
         else None)"

text \<open>
  \<^verbatim>\<open>pattern.match(f)\<close> for the pattern \<^verbatim>\<open>^prefix(\d+)suffix$\<close> with both parts
  escaped; the suffix starts with a dot, so the group is the whole run of digits after
  the prefix. \<^verbatim>\<open>$\<close> also matches before a newline that ends the name.
\<close>

definition match_sequence :: "string \<Rightarrow> string \<Rightarrow> string \<Rightarrow> string option" where
  "match_sequence prefix suffix f =
     (let r = drop (length prefix) f;
          num_str = takeWhile is_digit r;
          rest = dropWhile is_digit r
      in if take (length prefix) f = prefix \<and> num_str \<noteq> []
            \<and> (rest = suffix \<or> rest = suffix @ [CHR 0x0A])
         then Some num_str else None)"

text \<open>Lines 245 to 253: one directory entry, kept with its name and number when it
  matches.\<close>

definition scan_entry ::
  "string \<Rightarrow> string \<Rightarrow> string \<Rightarrow> string \<Rightarrow> error + (string \<times> string \<times> int) list" where
  "scan_entry base_dir prefix suffix f =
     (case match_sequence prefix suffix f of
        None \<Rightarrow> Inr []
      | Some num_str \<Rightarrow>
          (case py_int num_str of
             None \<Rightarrow> Inl ValueError
           | Some num_val \<Rightarrow> Inr [(path_join base_dir f, py_str num_val, num_val)]))"

text \<open>Lines 244 to 256: the matching entries, sorted by number (\<^verbatim>\<open>list.sort\<close> is
  stable, as \<open>sort_key\<close> is).\<close>

definition found_sequences ::
  "string \<Rightarrow> string \<Rightarrow> string \<Rightarrow> string list \<Rightarrow> error + (string \<times> string \<times> int) list" where
  "found_sequences base_dir prefix suffix all_files =
     ebind (mapE (scan_entry base_dir prefix suffix) all_files) (\<lambda>fs.
       Inr (sort_key (\<lambda>x. snd (snd x)) (concat fs)))"

definition name_base_of :: "string \<Rightarrow> string" where
  "name_base_of prefix =
     (if prefix \<noteq> [] \<and> (last prefix = CHR ''_'' \<or> last prefix = dot) then prefix
      else prefix @ ''_'')"

text \<open>Lines 209 to 269 of \<^verbatim>\<open>load_cube\<close>: the plan \<open>to_process\<close> and the name of the
  output file.\<close>

definition resolve_plan ::
  "('g, 't) world \<Rightarrow> string \<Rightarrow> bool \<Rightarrow>
   (error + ((string \<times> string option) list \<times> string)) \<times> ('g, 't) world" where
  "resolve_plan w filepath import_sequence =
     (let base_dir = dirname filepath;
          filename = basename filepath;
          output_vdb_name = fst (splitext filepath) @ ''.vdb''
      in if import_sequence then
           (case find_sequence_digits filename of
              Some (prefix, digits, suffix) \<Rightarrow>
                (let w1 = print_event (SequencePattern prefix suffix) w;
                     output_all = path_join base_dir (name_base_of prefix @ ''all.vdb'')
                 in case w_listdir w base_dir of
                      None \<Rightarrow> (Inl OSError, w1)
                    | Some all_files \<Rightarrow>
                        (case found_sequences base_dir prefix suffix all_files of
                           Inl e \<Rightarrow> (Inl e, w1)
                         | Inr found \<Rightarrow>
                             if found \<noteq> [] then
                               (Inr (map (\<lambda>x. (fst x, Some (fst (snd x)))) found, output_all),
                                print_event (FoundSequence (length found)) w1)
                             else
                               (Inr ([(filepath, None)], output_all),
                                print_event NoSequenceFiles w1)))
            | None \<Rightarrow>
                (Inr ([(filepath, None)], output_vdb_name), print_event NoDigits w))
         else (Inr ([(filepath, None)], output_vdb_name), w))"

subsection \<open>The batch\<close>

text \<open>Lines 271 to 278: each file in turn; an exception is printed and the loop goes
  on.\<close>

fun read_all ::
  "('f::{zero,one,times}, 'g, 't) numlib \<Rightarrow> 'f \<Rightarrow> naming_mode \<Rightarrow> ('g, 't) grid list \<Rightarrow>
   ('g, 't) world \<Rightarrow> (string \<times> string option) list \<Rightarrow>
   (('g, 't) grid list \<times> ('g, 't) world) option" where
  "read_all lib scale naming all_grids w [] = Some (all_grids, w)"
| "read_all lib scale naming all_grids w ((path, custom_name) # rest) =
     (case read_vdb_grids lib w path scale naming custom_name of
        None \<Rightarrow> None
      | Some (Inr grids, w1) \<Rightarrow> read_all lib scale naming (all_grids @ grids) w1 rest
      | Some (Inl e, w1) \<Rightarrow>
          read_all lib scale naming all_grids (print_event (ErrorReading path e) w1) rest)"

text \<open>Lines 280 to 289. The writer is taken to succeed and to leave the file in
  place, so the import into the host follows.\<close>

definition write_grids ::
  "string \<Rightarrow> ('g, 't) grid list \<Rightarrow> ('g, 't) world \<Rightarrow> (error + unit) \<times> ('g, 't) world" where
  "write_grids output_vdb_name all_grids w =
     (if all_grids = [] then (Inl (RuntimeError ''No grids loaded.''), w)
      else
        (let w1 = print_event (WritingGrids (length all_grids) output_vdb_name) w;
             w2 = w1\<lparr>w_written := w_written w1 @ [(output_vdb_name, all_grids)]\<rparr>;
             w3 = w2\<lparr>w_imported := w_imported w2 @ [output_vdb_name]\<rparr>
         in (Inr (), print_event Finished w3)))"

text \<open>Lines 271 to 289 on a given plan.\<close>

definition run_plan ::
  "('f::{zero,one,times}, 'g, 't) numlib \<Rightarrow> 'f \<Rightarrow> naming_mode \<Rightarrow> ('g, 't) world \<Rightarrow>
   (string \<times> string option) list \<Rightarrow> string \<Rightarrow> ((error + unit) \<times> ('g, 't) world) option" where
  "run_plan lib scale naming w to_process output_vdb_name =
     (case read_all lib scale naming [] w to_process of
        None \<Rightarrow> None
      | Some (all_grids, w1) \<Rightarrow> Some (write_grids output_vdb_name all_grids w1))"

text \<open>\<^verbatim>\<open>load_cube(filepath, context, scale, naming_mode, import_sequence)\<close> of the
  package.\<close>

definition load_cube ::
  "('f::{zero,one,times}, 'g, 't) numlib \<Rightarrow> ('g, 't) world \<Rightarrow> string \<Rightarrow> 'f \<Rightarrow> naming_mode \<Rightarrow>
   bool \<Rightarrow> ((error + unit) \<times> ('g, 't) world) option" where
  "load_cube lib w filepath scale naming import_sequence =
     (case resolve_plan w filepath import_sequence of
        (Inl e, w1) \<Rightarrow> Some (Inl e, w1)
      | (Inr (to_process, output_vdb_name), w1) \<Rightarrow>
          run_plan lib scale naming w1 to_process output_vdb_name)"

subsection \<open>The older single-file add-on\<close>

text \<open>
  \<^verbatim>\<open>load_cube(filepath, context, scale, naming_mode)\<close> of
  \<^verbatim>\<open>import_cube_addon.py\<close>: the same parser without the check of the third line, the
  same decoder and transform, its own names, and one call of the writer, which is the
  result here (the name of the output file and the grids). Its prints are left out.
\<close>

definition addon_load_cube ::
  "('f::{zero,one,times}, 'g, 't) numlib \<Rightarrow> (string \<Rightarrow> string option) \<Rightarrow> string \<Rightarrow> 'f \<Rightarrow>
   naming_mode \<Rightarrow> (error + (string \<times> ('g, 't) grid list)) option" where
  "addon_load_cube lib files filepath scale naming =
     (case files filepath of
        None \<Rightarrow> Some (Inl OSError)
      | Some text \<Rightarrow>
          (case parse_cube False (py_float lib) text of
             None \<Rightarrow> None
           | Some (Inl e) \<Rightarrow> Some (Inl e)
           | Some (Inr c) \<Rightarrow>
               Some (ebind (assemble lib c (np_fromstring lib (cube_content c)) scale
                              (addon_grid_name (geo_multi (cube_geo c)) naming (cube_indices c)))
                       (\<lambda>grids. Inr (fst (splitext filepath) @ ''.vdb'', grids)))))"


declare read_more_indices.simps [code]
subsection \<open>Instances for the examples\<close>

text \<open>A library in which every number is an integer written in decimal; the
  tokenizer stops at the first token that is not one, as NumPy's does.\<close>

definition int_tokens :: "string \<Rightarrow> int list" where
  "int_tokens s =
     map (\<lambda>t. case py_int t of Some v \<Rightarrow> v | None \<Rightarrow> 0)
       (takeWhile (\<lambda>t. py_int t \<noteq> None) (split_ws s))"

definition integer_lib :: "(int, int, int list list) numlib" where
  "integer_lib =
     \<lparr>py_float = py_int, np_fromstring = int_tokens, astype_float32 = id,
      createLinearTransform = Some\<rparr>"

definition world_of ::
  "(string \<Rightarrow> string option) \<Rightarrow> (string \<Rightarrow> string list option) \<Rightarrow> ('g, 't) world" where
  "world_of files listing =
     \<lparr>w_files = files, w_listdir = listing, w_written = [], w_imported = [], w_log = []\<rparr>"

text \<open>A single-field file of 2 by 2 by 2 voxels with the payload 1 to 8.\<close>

definition density_2x2x2 :: string where
  "density_2x2x2 =
     ''title\<newline>comment\<newline>0 0 0 0\<newline>2 1 0 0\<newline>2 0 1 0\<newline>2 0 0 1\<newline>1 2 3 4\<newline>5 6 7 8\<newline>''"

text \<open>The grids one entry of the plan contributes when read in the world \<open>w\<close>: those
  of a successful read, none when the read raises.\<close>

definition file_grids ::
  "('f::{zero,one,times}, 'g, 't) numlib \<Rightarrow> ('g, 't) world \<Rightarrow> 'f \<Rightarrow> naming_mode \<Rightarrow>
   string \<times> string option \<Rightarrow> ('g, 't) grid list" where
  "file_grids lib w scale naming entry =
     (case read_vdb_grids lib w (fst entry) scale naming (snd entry) of
        Some (Inr grids, w') \<Rightarrow> grids
      | _ \<Rightarrow> [])"

text \<open>A run of digits without its leading zeros (the single zero is kept).\<close>

definition strip_zeros :: "string \<Rightarrow> string" where
  "strip_zeros d = (case dropWhile (\<lambda>c. c = CHR ''0'') d of [] \<Rightarrow> ''0'' | c # cs \<Rightarrow> c # cs)"

text \<open>What a directory entry contributes to the sequence: nothing when it does not
  match, otherwise its path, its digits without leading zeros, and their value.\<close>

definition sibling_entry ::
  "string \<Rightarrow> string \<Rightarrow> string \<Rightarrow> string \<Rightarrow> (string \<times> string \<times> int) list" where
  "sibling_entry base_dir prefix suffix f =
     (case match_sequence prefix suffix f of
        None \<Rightarrow> []
      | Some d \<Rightarrow> [(path_join base_dir f, strip_zeros d, int (digits_value d))])"

text \<open>A two-field file: atom count -1, one atom line, the field count 2 with the
  indices 5 and 7, then 1 by 1 by 2 voxels of two values each.\<close>

definition orbitals_5_7 :: string where
  "orbitals_5_7 =
     ''title\<newline>comment\<newline>-1 0 0 0\<newline>1 1 0 0\<newline>1 0 1 0\<newline>2 0 0 1\<newline>6 0 0 0 0\<newline>2 5 7\<newline>1 2 3 4\<newline>''"

text \<open>A single-field file that announces two atoms and ends after the first atom
  line.\<close>

definition truncated_atoms :: string where
  "truncated_atoms =
     ''title\<newline>comment\<newline>2 0 0 0\<newline>1 1 0 0\<newline>1 0 1 0\<newline>2 0 0 1\<newline>6 0 0 0 0\<newline>''"

text \<open>A single-field file of one voxel.\<close>

definition one_voxel :: string where
  "one_voxel =
     ''title\<newline>comment\<newline>0 0 0 0\<newline>1 1 0 0\<newline>1 0 1 0\<newline>1 0 0 1\<newline>9\<newline>''"

text \<open>A multi-field file that announces two atoms and ends after the first atom
  line.\<close>

definition truncated_orbitals :: string where
  "truncated_orbitals =
     ''title\<newline>comment\<newline>-2 0 0 0\<newline>1 1 0 0\<newline>1 0 1 0\<newline>2 0 0 1\<newline>6 0 0 0 0\<newline>''"


section \<open>Properties\<close>

subsection \<open>Reshaping\<close>

lemma split_rows_length: "length (split_rows r n xs) = r"
  by (simp add: split_rows_def)

lemma split_rows_Suc: "split_rows (Suc r) n xs = split_rows r n xs @ [take n (drop (r * n) xs)]"
  by (simp add: split_rows_def)

lemma concat_split_rows: "concat (split_rows r n xs) = take (r * n) xs"
proof (induction r)
  case 0
  then show ?case by (simp add: split_rows_def)
next
  case (Suc r)
  have "take (r * n) xs @ take n (drop (r * n) xs) = take (r * n + n) xs"
    by (simp add: take_add)
  then show ?case using Suc by (simp add: split_rows_Suc add.commute)
qed

lemma split_rows_nth: "i < r \<Longrightarrow> split_rows r n xs ! i = take n (drop (i * n) xs)"
  by (simp add: split_rows_def)

lemma split_rows_row_length: "row \<in> set (split_rows r n xs) \<Longrightarrow> length row \<le> n"
  by (auto simp: split_rows_def)

lemma concat_map_split_rows:
  assumes "\<And>row. row \<in> set rows \<Longrightarrow> length row \<le> b * c"
  shows "concat (map (\<lambda>row. concat (split_rows b c row)) rows) = concat rows"
proof -
  have "map (\<lambda>row. concat (split_rows b c row)) rows = rows"
    using assms by (induction rows) (simp_all add: concat_split_rows)
  then show ?thesis by simp
qed

lemma concat_concat_map: "concat (concat (map f xs)) = concat (map (\<lambda>x. concat (f x)) xs)"
  by (induction xs) simp_all

lemma concat_reshape3: "concat (concat (reshape3 a b c xs)) = take (a * b * c) xs"
proof -
  have "concat (concat (reshape3 a b c xs))
        = concat (map (\<lambda>row. concat (split_rows b c row)) (split_rows a (b * c) xs))"
    by (simp add: reshape3_def concat_concat_map)
  also have "\<dots> = concat (split_rows a (b * c) xs)"
    by (rule concat_map_split_rows) (rule split_rows_row_length)
  finally show ?thesis by (simp add: concat_split_rows mult.assoc)
qed


lemma index_bound:
  fixes j k b c :: nat
  assumes "j < b" "k < c"
  shows "j * c + k < b * c"
proof -
  have "j * c + k < j * c + c" using assms by simp
  also have "\<dots> = Suc j * c" by simp
  also have "\<dots> \<le> b * c" using assms by (intro mult_le_mono1) simp
  finally show ?thesis .
qed

lemma split_rows_nth_nth:
  assumes "j < b" "k < c" "b * c \<le> length ys"
  shows "split_rows b c ys ! j ! k = ys ! (j * c + k)"
proof -
  have "j * c + k < b * c" using assms index_bound by blast
  then have "j * c \<le> length ys" using assms by linarith
  then show ?thesis using assms by (simp add: split_rows_nth)
qed

lemma split_rows_row_full:
  assumes "i < a" "a * n \<le> length xs"
  shows "length (split_rows a n xs ! i) = n"
proof -
  have "i * n + n = Suc i * n" by simp
  also have "\<dots> \<le> a * n" using assms by (intro mult_le_mono1) simp
  finally have "i * n + n \<le> length xs" using assms by linarith
  then show ?thesis using assms by (simp add: split_rows_nth)
qed

lemma reshape3_nth:
  assumes "i < a" "j < b" "k < c" "a * b * c \<le> length xs"
  shows "reshape3 a b c xs ! i ! j ! k = xs ! ((i * b + j) * c + k)"
proof -
  let ?row = "split_rows a (b * c) xs ! i"
  have len: "length ?row = b * c"
    using assms by (intro split_rows_row_full) (simp_all add: mult.assoc)
  have jk: "j * c + k < b * c" using assms index_bound by blast
  have "reshape3 a b c xs ! i ! j ! k = split_rows b c ?row ! j ! k"
    using assms by (simp add: reshape3_def split_rows_length)
  also have "\<dots> = ?row ! (j * c + k)"
    using assms len by (intro split_rows_nth_nth) simp_all
  also have "\<dots> = xs ! (i * (b * c) + (j * c + k))"
    using assms jk by (intro split_rows_nth_nth) (simp_all add: mult.assoc)
  finally show ?thesis by (simp add: algebra_simps)
qed

lemma reshape4_nth:
  assumes "i < a" "j < b" "k < c" "m < d" "a * b * c * d \<le> length xs"
  shows "reshape4 a b c d xs ! i ! j ! k ! m = xs ! (((i * b + j) * c + k) * d + m)"
proof -
  let ?row = "split_rows a (b * c * d) xs ! i"
  have len: "length ?row = b * c * d"
    using assms by (intro split_rows_row_full) (simp_all add: mult.assoc)
  have jk: "j * c + k < b * c" using assms index_bound by blast
  have jkm: "(j * c + k) * d + m < (b * c) * d" using jk assms index_bound by blast
  have "reshape4 a b c d xs ! i ! j ! k ! m = reshape3 b c d ?row ! j ! k ! m"
    using assms by (simp add: reshape4_def split_rows_length)
  also have "\<dots> = ?row ! ((j * c + k) * d + m)"
    using assms len by (intro reshape3_nth) simp_all
  also have "\<dots> = xs ! (i * (b * c * d) + ((j * c + k) * d + m))"
    using assms jkm by (intro split_rows_nth_nth) (simp_all add: mult.assoc)
  finally show ?thesis by (simp add: algebra_simps)
qed






lemma reconcile_length: "0 \<le> e \<Longrightarrow> length (reconcile e data) = nat e"
  by (auto simp: reconcile_def py_slice_to_def)



lemma resolve_shape_nonneg:
  assumes "\<And>d. d \<in> set dims \<Longrightarrow> 0 \<le> d" "int sz = prod_list dims"
  shows "resolve_shape dims sz = Inr (map nat dims)"
proof -
  have "filter (\<lambda>d. d < 0) dims = []"
    using assms(1) by (fastforce simp: filter_empty_conv)
  moreover have "filter (\<lambda>d. 0 \<le> d) dims = dims"
    using assms(1) by (simp add: filter_id_conv)
  ultimately show ?thesis using assms(2) by (simp add: resolve_shape_def)
qed

lemma decode_payload_multi:
  assumes "0 \<le> n1" "0 \<le> n2" "0 \<le> n3" "1 < F"
  shows "decode_payload n1 n2 n3 F tokens =
         Inr (Array4 (reshape4 (nat n1) (nat n2) (nat n3) (nat F) (reconcile (n1 * n2 * n3 * F) tokens)))"
proof -
  have e: "0 \<le> n1 * n2 * n3 * F" using assms by simp
  have "resolve_shape [n1, n2, n3, F] (length (reconcile (n1 * n2 * n3 * F) tokens))
        = Inr (map nat [n1, n2, n3, F])"
    using assms e by (intro resolve_shape_nonneg) (auto simp: reconcile_length mult.assoc)
  then show ?thesis using assms by (simp add: decode_payload_def reshape_data_def ebind_def)
qed

lemma decode_payload_single:
  assumes "0 \<le> n1" "0 \<le> n2" "0 \<le> n3"
  shows "decode_payload n1 n2 n3 1 tokens =
         Inr (Array3 (reshape3 (nat n1) (nat n2) (nat n3) (reconcile (n1 * n2 * n3 * 1) tokens)))"
proof -
  have e: "0 \<le> n1 * n2 * n3 * 1" using assms by simp
  have "resolve_shape [n1, n2, n3] (length (reconcile (n1 * n2 * n3 * 1) tokens))
        = Inr (map nat [n1, n2, n3])"
    using assms e by (intro resolve_shape_nonneg) (auto simp: reconcile_length mult.assoc)
  then show ?thesis using assms by (simp add: decode_payload_def reshape_data_def ebind_def)
qed


lemma nat_prod4:
  "0 \<le> a \<Longrightarrow> 0 \<le> b \<Longrightarrow> 0 \<le> c \<Longrightarrow> 0 \<le> d \<Longrightarrow> nat (a * b * c * d) = nat a * nat b * nat c * nat d"
  by (simp add: nat_mult_distrib)


subsection \<open>The claims\<close>


text \<open>
  Claim C6. For three basis vectors, an origin and a scale, the matrix built by the
  transform builder has as row \<open>i\<close> (for \<open>i\<close> from 0 to 2) the \<open>i\<close>-th basis vector
  times the scale, as the first three entries of row 3 the origin times the scale, and
  as fourth column \<open>(0, 0, 0, 1)\<close>. With the unit basis, the zero origin and the scale 2
  (here over the reals) the first three diagonal entries are 2 and the translation row
  is \<open>(0, 0, 0)\<close>.
\<close>

theorem transform_matrix_rows:
  "transform_matrix [a1, a2, a3] [b1, b2, b3] [c1, c2, c3] [o1, o2, o3] s =
     Inr [[a1 * s, a2 * s, a3 * s, 0],
          [b1 * s, b2 * s, b3 * s, 0],
          [c1 * s, c2 * s, c3 * s, 0],
          [o1 * s, o2 * s, o3 * s, 1]]
   \<and> transform_matrix [1, 0, 0] [0, 1, 0] [0, 0, 1] [0, 0, 0] (2 :: real) =
     Inr [[2, 0, 0, 0], [0, 2, 0, 0], [0, 0, 2, 0], [0, 0, 0, 1]]"
  by (simp add: transform_matrix_def assign_row3_def identity4_def ebind_def)



lemma reconcile_nth:
  "p < length data \<Longrightarrow> p < nat e \<Longrightarrow> reconcile e data ! p = data ! p"
  by (auto simp: reconcile_def py_slice_to_def nth_append)

lemma density_2x2x2_grids:
  "map_option fst
     (read_vdb_grids integer_lib (world_of (Map.empty(''a.cub'' \<mapsto> density_2x2x2)) (\<lambda>_. None))
        ''a.cub'' 1 MO_INDICES None)
   = Some (Inr [\<lparr>g_name = ''Density'', g_voxels = [[[1, 2], [3, 4]], [[5, 6], [7, 8]]],
                  g_transform = [[1, 0, 0, 0], [0, 1, 0, 0], [0, 0, 1, 0], [0, 0, 0, 1]],
                  g_class = FOG_VOLUME\<rparr>])"
  by code_simp

text \<open>
  Claim C2. For counts that are not negative and a field count \<open>F\<close> of at least 1,
  the value of field \<open>m\<close> at voxel \<open>(i, j, k)\<close> is the value at position
  \<open>((i * n2 + j) * n3 + k) * F + m\<close> of the reconciled payload, which is the payload
  token at that position when the payload reaches that far: the field index varies
  fastest, inside the voxel order with X slowest and Z fastest. For \<open>F = 1\<close> the only
  field, flattened, is the reconciled payload itself. The single-field file of 2 by 2
  by 2 voxels with the payload 1 to 8 yields one grid, named Density, whose flattened
  voxels are 1 to 8.
\<close>

theorem field_value_position:
  assumes "0 \<le> n1" "0 \<le> n2" "0 \<le> n3" "1 \<le> F"
    and "i < nat n1" "j < nat n2" "k < nat n3" "m < nat F"
  shows "(\<exists>arr. decode_payload n1 n2 n3 F tokens = Inr arr
            \<and> vol_data arr m ! i ! j ! k =
                reconcile (n1 * n2 * n3 * F) tokens ! (((i * nat n2 + j) * nat n3 + k) * nat F + m)
            \<and> (((i * nat n2 + j) * nat n3 + k) * nat F + m < length tokens \<longrightarrow>
                 vol_data arr m ! i ! j ! k = tokens ! (((i * nat n2 + j) * nat n3 + k) * nat F + m))
            \<and> (F = 1 \<longrightarrow> flatten3 (vol_data arr m) = reconcile (n1 * n2 * n3 * F) tokens))
       \<and> (\<exists>g w'. read_vdb_grids integer_lib
                    (world_of (Map.empty(''a.cub'' \<mapsto> density_2x2x2)) (\<lambda>_. None))
                    ''a.cub'' 1 MO_INDICES None = Some (Inr [g], w')
            \<and> g_name g = ''Density''
            \<and> flatten3 (g_voxels g) = [1, 2, 3, 4, 5, 6, 7, 8])"
proof -
  let ?xs = "reconcile (n1 * n2 * n3 * F) tokens"
  let ?p = "((i * nat n2 + j) * nat n3 + k) * nat F + m"
  have e: "0 \<le> n1 * n2 * n3 * F" using assms by simp
  have len: "length ?xs = nat n1 * nat n2 * nat n3 * nat F"
    using assms by (simp add: reconcile_length nat_prod4)
  have "(i * nat n2 + j) < nat n1 * nat n2" using assms index_bound by blast
  then have "(i * nat n2 + j) * nat n3 + k < nat n1 * nat n2 * nat n3"
    using assms index_bound by blast
  then have p: "?p < nat n1 * nat n2 * nat n3 * nat F"
    using assms index_bound by blast
  have tok: "?p < length tokens \<longrightarrow> ?xs ! ?p = tokens ! ?p"
    using p len e by (simp add: reconcile_nth reconcile_length)
  have general: "\<exists>arr. decode_payload n1 n2 n3 F tokens = Inr arr
            \<and> vol_data arr m ! i ! j ! k = ?xs ! ?p
            \<and> (?p < length tokens \<longrightarrow> vol_data arr m ! i ! j ! k = tokens ! ?p)
            \<and> (F = 1 \<longrightarrow> flatten3 (vol_data arr m) = ?xs)"
  proof (cases "1 < F")
    case True
    let ?arr = "Array4 (reshape4 (nat n1) (nat n2) (nat n3) (nat F) ?xs)"
    have "vol_data ?arr m ! i ! j ! k = reshape4 (nat n1) (nat n2) (nat n3) (nat F) ?xs ! i ! j ! k ! m"
      using assms
      by (simp add: vol_data_def reshape4_def reshape3_def split_rows_length)
    also have "\<dots> = ?xs ! ?p"
      using assms len by (intro reshape4_nth) simp_all
    finally have "vol_data ?arr m ! i ! j ! k = ?xs ! ?p" .
    then show ?thesis
      using decode_payload_multi [OF assms(1-3) True, of tokens] tok True by simp
  next
    case False
    then have F: "F = 1" using assms by simp
    then have m: "m = 0" using assms by simp
    let ?arr = "Array3 (reshape3 (nat n1) (nat n2) (nat n3) ?xs)"
    have "vol_data ?arr m ! i ! j ! k = ?xs ! ((i * nat n2 + j) * nat n3 + k)"
      using assms len F unfolding vol_data_def by (simp add: reshape3_nth)
    moreover have "flatten3 (vol_data ?arr m) = ?xs"
      using len F by (simp add: vol_data_def flatten3_def concat_reshape3)
    ultimately show ?thesis
      using decode_payload_single [OF assms(1-3), of tokens] tok F m by simp
  qed
  have "\<exists>g w'. read_vdb_grids integer_lib
                    (world_of (Map.empty(''a.cub'' \<mapsto> density_2x2x2)) (\<lambda>_. None))
                    ''a.cub'' 1 MO_INDICES None = Some (Inr [g], w')
            \<and> g_name g = ''Density''
            \<and> flatten3 (g_voxels g) = [1, 2, 3, 4, 5, 6, 7, 8]"
    using density_2x2x2_grids by (auto simp: flatten3_def)
  then show ?thesis using general by blast
qed

theorem field_value_position_witness:
  "\<exists>arr. decode_payload 2 2 2 2 [1, 2, 3, 4, 5, 6, 7, 8, 9, 10, 11, 12, 13, 14, 15, 16 :: int] = Inr arr
     \<and> vol_data arr 1 ! 1 ! 0 ! 1 = 12"
proof -
  have h: "(0::int) \<le> 2" "(1::int) \<le> 2" "(1::nat) < nat 2" "(0::nat) < nat 2" by simp_all
  let ?t = "[1, 2, 3, 4, 5, 6, 7, 8, 9, 10, 11, 12, 13, 14, 15, 16 :: int]"
  obtain arr where arr: "decode_payload 2 2 2 2 ?t = Inr arr"
     "((1 * nat 2 + 0) * nat 2 + 1) * nat 2 + 1 < length ?t \<longrightarrow>
                 vol_data arr 1 ! 1 ! 0 ! 1 = ?t ! (((1 * nat 2 + 0) * nat 2 + 1) * nat 2 + 1)"
    using field_value_position [OF h(1) h(1) h(1) h(2) h(3) h(4) h(3) h(3), of ?t] by blast
  have "vol_data arr 1 ! 1 ! 0 ! 1 = ?t ! 11" using arr(2) by simp
  then have "vol_data arr 1 ! 1 ! 0 ! 1 = 12" by simp
  then show ?thesis using arr(1) by blast
qed

subsection \<open>Reading a file leaves the world as it was, but for the log\<close>

lemma read_vdb_grids_frame:
  assumes "read_vdb_grids lib w p s nm f = Some (r, w1)"
  shows "w_files w1 = w_files w \<and> w_listdir w1 = w_listdir w
         \<and> w_written w1 = w_written w \<and> w_imported w1 = w_imported w"
  using assms
  by (auto simp: read_vdb_grids_def print_event_def Let_def
           split: option.splits sum.splits if_splits)

lemma read_vdb_grids_same_file:
  assumes "w_files w' p = w_files w p"
  shows "map_option fst (read_vdb_grids lib w' p s nm f)
         = map_option fst (read_vdb_grids lib w p s nm f)"
  using assms
  by (auto simp: read_vdb_grids_def Let_def split: option.splits sum.splits)

lemma file_grids_same_file:
  assumes "w_files w' (fst entry) = w_files w (fst entry)"
  shows "file_grids lib w' s nm entry = file_grids lib w s nm entry"
proof -
  have "map_option fst (read_vdb_grids lib w' (fst entry) s nm (snd entry))
        = map_option fst (read_vdb_grids lib w (fst entry) s nm (snd entry))"
    using assms by (rule read_vdb_grids_same_file)
  then show ?thesis
    by (auto simp: file_grids_def split: option.splits sum.splits)
qed















text \<open>
  Claim C9. The result of parsing and decoding a file depends on the text of the file
  and the configuration only: two worlds with the same text at the path give the same
  result, and a second run after a first one returns the same result again (the first
  run changes the log and nothing else).
\<close>

theorem read_vdb_grids_deterministic:
  "(w_files w' filepath = w_files w filepath \<longrightarrow>
      map_option fst (read_vdb_grids lib w' filepath scale naming force)
      = map_option fst (read_vdb_grids lib w filepath scale naming force))
   \<and> (read_vdb_grids lib w filepath scale naming force = Some (r, w1) \<longrightarrow>
        (\<exists>w2. read_vdb_grids lib w1 filepath scale naming force = Some (r, w2)))"
proof -
  have "\<exists>w2. read_vdb_grids lib w1 filepath scale naming force = Some (r, w2)"
    if run: "read_vdb_grids lib w filepath scale naming force = Some (r, w1)"
  proof -
    have "w_files w1 filepath = w_files w filepath"
      using read_vdb_grids_frame [OF run] by simp
    then have "map_option fst (read_vdb_grids lib w1 filepath scale naming force) = Some r"
      using read_vdb_grids_same_file [of w1 filepath w lib scale naming force] run by simp
    then show ?thesis by auto
  qed
  then show ?thesis using read_vdb_grids_same_file by blast
qed

theorem read_vdb_grids_deterministic_witness:
  "\<exists>r w1 w2.
     read_vdb_grids integer_lib (world_of (Map.empty(''a.cub'' \<mapsto> density_2x2x2)) (\<lambda>_. None))
       ''a.cub'' 1 MO_INDICES None = Some (Inr r, w1)
     \<and> read_vdb_grids integer_lib w1 ''a.cub'' 1 MO_INDICES None = Some (Inr r, w2)
     \<and> map g_voxels r = [[[[1, 2], [3, 4]], [[5, 6], [7, 8]]]]"
proof -
  let ?W = "world_of (Map.empty(''a.cub'' \<mapsto> density_2x2x2)) (\<lambda>_. None) :: (int, int list list) world"
  obtain r w1 where run: "read_vdb_grids integer_lib ?W ''a.cub'' 1 MO_INDICES None = Some (Inr r, w1)"
      and r: "map g_voxels r = [[[[1, 2], [3, 4]], [[5, 6], [7, 8]]]]"
    using density_2x2x2_grids by auto
  obtain w2 where again: "read_vdb_grids integer_lib w1 ''a.cub'' 1 MO_INDICES None = Some (Inr r, w2)"
    using read_vdb_grids_deterministic [of w1 "''a.cub''" ?W integer_lib 1 MO_INDICES None "Inr r" w1] run
    by blast
  show ?thesis
    by (rule exI [of _ r], rule exI [of _ w1], rule exI [of _ w2]) (simp add: run again r)
qed

subsection \<open>Decimal text\<close>

lemma digit_char_is_digit: "k < 10 \<Longrightarrow> is_digit (digit_char k)"
  by (simp add: is_digit_def digit_char_def)

lemma digit_val_digit_char: "k < 10 \<Longrightarrow> digit_val (digit_char k) = k"
  by (simp add: digit_val_def digit_char_def)

lemma digit_char_digit_val: "is_digit c \<Longrightarrow> digit_char (digit_val c) = c"
  by (simp add: is_digit_def digit_val_def digit_char_def)

lemma digit_val_less: "is_digit c \<Longrightarrow> digit_val c < 10"
  by (auto simp: is_digit_def digit_val_def)

lemma digits_value_snoc: "digits_value (d @ [c]) = 10 * digits_value d + digit_val c"
  by (simp add: digits_value_def)

lemma nat_digits_small: "n < 10 \<Longrightarrow> nat_digits n = [digit_char n]"
  by (subst nat_digits.simps) simp

lemma nat_digits_large:
  "10 \<le> n \<Longrightarrow> nat_digits n = nat_digits (n div 10) @ [digit_char (n mod 10)]"
  by (subst nat_digits.simps) simp

lemma nat_digits_all_digits: "list_all is_digit (nat_digits n)"
proof (induction n rule: nat_digits.induct)
  case (1 n)
  show ?case
  proof (cases "n < 10")
    case True
    then show ?thesis by (simp add: nat_digits_small digit_char_is_digit)
  next
    case False
    then show ?thesis using 1 by (simp add: nat_digits_large digit_char_is_digit)
  qed
qed

lemma nat_digits_nonempty: "nat_digits n \<noteq> []"
  by (subst nat_digits.simps) simp

lemma digits_value_nat_digits: "digits_value (nat_digits n) = n"
proof (induction n rule: nat_digits.induct)
  case (1 n)
  show ?case
  proof (cases "n < 10")
    case True
    then show ?thesis
      by (simp add: nat_digits_small digits_value_def digit_val_digit_char)
  next
    case False
    then show ?thesis
      using 1 by (simp add: nat_digits_large digits_value_snoc digit_val_digit_char)
  qed
qed

lemma nat_digits_inj:
  assumes "nat_digits a = nat_digits b"
  shows "a = b"
proof -
  have "digits_value (nat_digits a) = digits_value (nat_digits b)"
    using assms by (rule arg_cong)
  then show ?thesis by (simp only: digits_value_nat_digits)
qed

lemma minus_not_digit: "\<not> is_digit (CHR ''-'')"
  by (simp add: is_digit_def)

lemma underscore_not_digit: "\<not> is_digit (CHR ''_'')"
  by (simp add: is_digit_def)

lemma nat_digits_hd_digit: "is_digit (hd (nat_digits n))"
  using nat_digits_all_digits [of n] nat_digits_nonempty [of n]
  by (cases "nat_digits n") simp_all

lemma py_str_inj: "py_str a = py_str b \<Longrightarrow> a = b"
proof -
  assume eq: "py_str a = py_str b"
  have neg: "False" if "x < 0" "\<not> y < 0" "py_str x = py_str y" for x y
  proof -
    have "hd (py_str x) = CHR ''-''" using that(1) by (simp add: py_str_def)
    moreover have "is_digit (hd (py_str y))"
      using that(2) nat_digits_hd_digit by (simp add: py_str_def)
    ultimately show False using that(3) minus_not_digit by simp
  qed
  show "a = b"
  proof (cases "a < 0")
    case True
    then have "b < 0" using neg [of a b] eq by blast
    then have "nat (- a) = nat (- b)" using eq True by (simp add: py_str_def nat_digits_inj)
    then show ?thesis using True \<open>b < 0\<close> by simp
  next
    case False
    then have nb: "\<not> b < 0" using neg [of b a] eq by auto
    then have "nat a = nat b" using eq False by (simp add: py_str_def nat_digits_inj)
    then show ?thesis using False nb by simp
  qed
qed

lemma int_body_ok_digits: "d \<noteq> [] \<Longrightarrow> list_all is_digit d \<Longrightarrow> int_body_ok d"
proof (induction d rule: int_body_ok.induct)
  case 1
  then show ?case by simp
next
  case (2 c)
  then show ?case by simp
next
  case (3 c d cs)
  then show ?case using underscore_not_digit by auto
qed

lemma filter_digits_id: "list_all is_digit d \<Longrightarrow> filter is_digit d = d"
  by (simp add: list_all_iff filter_id_conv)

lemma py_int_digits:
  assumes "d \<noteq> []" "list_all is_digit d"
  shows "py_int d = Some (int (digits_value d))"
proof -
  obtain c cs where d: "d = c # cs" using assms(1) by (cases d) auto
  have "is_digit c" using assms(2) d by simp
  then have "c \<noteq> CHR ''+''" "c \<noteq> CHR ''-''" by (auto simp: is_digit_def)
  then show ?thesis
    using d assms int_body_ok_digits [OF assms] filter_digits_id [OF assms(2)]
    by (simp add: py_int_def int_body_def)
qed

lemma py_int_py_str: "py_int (py_str i) = Some i"
proof (cases "i < 0")
  case True
  have "int_body (nat_digits (nat (- i))) = Some (int (nat (- i)))"
    using int_body_ok_digits [OF nat_digits_nonempty nat_digits_all_digits]
          filter_digits_id [OF nat_digits_all_digits]
    by (simp add: int_body_def digits_value_nat_digits)
  then show ?thesis using True by (simp add: py_int_def py_str_def)
next
  case False
  then show ?thesis
    using py_int_digits [OF nat_digits_nonempty nat_digits_all_digits, of "nat i"]
    by (simp add: py_str_def digits_value_nat_digits)
qed

lemma zero_digit:
  assumes "is_digit c" "digit_val c = 0"
  shows "c = CHR ''0''"
proof -
  have "(of_char c :: nat) = 48" using assms by (simp add: is_digit_def digit_val_def)
  then have "(of_char c :: nat) = of_char (CHR ''0'')" by simp
  then show ?thesis by (simp only: of_char_eq_iff)
qed

lemma digits_value_zero:
  "list_all is_digit d \<Longrightarrow> digits_value d = 0 \<Longrightarrow> list_all (\<lambda>c. c = CHR ''0'') d"
proof (induction d rule: rev_induct)
  case Nil
  then show ?case by simp
next
  case (snoc c d)
  then show ?case using zero_digit by (auto simp: digits_value_snoc)
qed

lemma zeros_value: "list_all (\<lambda>c. c = CHR ''0'') d \<Longrightarrow> digits_value d = 0"
  by (induction d rule: rev_induct) (auto simp: digits_value_snoc digit_val_def digits_value_def)

lemma nat_digits_digits_value:
  "d \<noteq> [] \<Longrightarrow> list_all is_digit d \<Longrightarrow> nat_digits (digits_value d) = strip_zeros d"
proof (induction d rule: rev_induct)
  case Nil
  then show ?case by simp
next
  case (snoc c d)
  have c: "is_digit c" and dd: "list_all is_digit d" using snoc.prems by simp_all
  have k: "digit_val c < 10" using c by (rule digit_val_less)
  show ?case
  proof (cases "digits_value d = 0")
    case True
    then have z: "list_all (\<lambda>c. c = CHR ''0'') d" using dd digits_value_zero by blast
    then have dw: "dropWhile (\<lambda>c. c = CHR ''0'') (d @ [c]) = dropWhile (\<lambda>c. c = CHR ''0'') [c]"
      by (simp add: list_all_iff)
    have "nat_digits (digits_value (d @ [c])) = [c]"
      using True k c by (simp add: digits_value_snoc nat_digits_small digit_char_digit_val)
    moreover have "strip_zeros (d @ [c]) = [c]"
      unfolding strip_zeros_def dw by simp
    ultimately show ?thesis by simp
  next
    case False
    then have dne: "d \<noteq> []" by (auto simp: digits_value_def)
    have nz: "\<not> list_all (\<lambda>c. c = CHR ''0'') d" using False zeros_value [of d] by auto
    then obtain x where x: "x \<in> set d" "x \<noteq> CHR ''0''" by (auto simp: list_all_iff)
    then have dw: "dropWhile (\<lambda>c. c = CHR ''0'') (d @ [c]) = dropWhile (\<lambda>c. c = CHR ''0'') d @ [c]"
      by (intro dropWhile_append1) auto
    have ne: "dropWhile (\<lambda>c. c = CHR ''0'') d \<noteq> []"
      using x by (auto simp: dropWhile_eq_Nil_conv)
    have sz: "strip_zeros d = dropWhile (\<lambda>c. c = CHR ''0'') d"
      using ne by (cases "dropWhile (\<lambda>c. c = CHR ''0'') d") (simp_all add: strip_zeros_def)
    have "strip_zeros (d @ [c]) = dropWhile (\<lambda>c. c = CHR ''0'') d @ [c]"
      using ne unfolding strip_zeros_def dw
      by (cases "dropWhile (\<lambda>c. c = CHR ''0'') d") simp_all
    then have "strip_zeros (d @ [c]) = strip_zeros d @ [c]"
      using sz by simp
    have "nat_digits (digits_value (d @ [c])) = nat_digits (digits_value d) @ [c]"
      using False k c by (simp add: digits_value_snoc nat_digits_large digit_char_digit_val)
    then show ?thesis using \<open>strip_zeros (d @ [c]) = strip_zeros d @ [c]\<close> snoc.IH [OF dne dd] by simp
  qed
qed

subsection \<open>File names of a sequence\<close>

lemma rev_split_while:
  "xs = rev (dropWhile P (rev xs)) @ rev (takeWhile P (rev xs))"
proof -
  have "rev xs = takeWhile P (rev xs) @ dropWhile P (rev xs)" by simp
  then have "rev (rev xs) = rev (takeWhile P (rev xs) @ dropWhile P (rev xs))" by (rule arg_cong)
  then show ?thesis by (simp only: rev_rev_ident rev_append)
qed

lemma take_front: "length xs = n \<Longrightarrow> take n (xs @ ys) = xs"
  by simp

lemma split_at_last_dot:
  assumes "dot \<in> set f"
  shows "f = take (length f - length (rev (takeWhile (\<lambda>c. c \<noteq> dot) (rev f))) - 1) f
             @ dot # rev (takeWhile (\<lambda>c. c \<noteq> dot) (rev f))"
proof -
  define e where "e = takeWhile (\<lambda>c. c \<noteq> dot) (rev f)"
  define d where "d = dropWhile (\<lambda>c. c \<noteq> dot) (rev f)"
  have "dot \<in> set (rev f)" using assms by simp
  then have ne: "d \<noteq> []" unfolding d_def by (simp add: dropWhile_eq_Nil_conv)
  have "hd d = dot" using ne hd_dropWhile [of "\<lambda>c. c \<noteq> dot" "rev f"] unfolding d_def by simp
  then obtain t where t: "d = dot # t" using ne by (cases d) auto
  have f: "f = rev t @ dot # rev e"
    using rev_split_while [of f "\<lambda>c. c \<noteq> dot"] t unfolding e_def d_def by simp
  have "length f = length t + 1 + length e" using arg_cong [OF f, of length] by simp
  then have "length f - length (rev e) - 1 = length (rev t)" by simp
  then have "take (length f - length (rev e) - 1) f = take (length (rev t)) (rev t @ dot # rev e)"
    using f by simp
  then have "take (length f - length (rev e) - 1) f = rev t" by simp
  then show ?thesis using f unfolding e_def by simp
qed

lemma find_sequence_digits_parts:
  assumes "find_sequence_digits f = Some (prefix, digits, suffix)"
  shows "f = prefix @ digits @ suffix \<and> digits \<noteq> [] \<and> list_all is_digit digits
         \<and> (\<exists>ext. suffix = dot # ext)"
proof -
  define ext where "ext = rev (takeWhile (\<lambda>c. c \<noteq> dot) (rev f))"
  define stem where "stem = take (length f - length ext - 1) f"
  define ds where "ds = rev (takeWhile is_digit (rev stem))"
  from assms have c: "dot \<in> set f" "ds \<noteq> []"
      and r: "prefix = take (length stem - length ds) stem" "digits = ds" "suffix = dot # ext"
    unfolding ds_def stem_def ext_def
    by (auto simp: find_sequence_digits_def Let_def split: if_splits)
  have f: "f = stem @ dot # ext"
    using split_at_last_dot [OF c(1)] unfolding stem_def ext_def .
  have st: "stem = rev (dropWhile is_digit (rev stem)) @ ds"
    unfolding ds_def by (rule rev_split_while)
  have "length stem = length (rev (dropWhile is_digit (rev stem))) + length ds"
    using arg_cong [OF st, of length] by simp
  then have "length stem - length ds = length (rev (dropWhile is_digit (rev stem)))" by simp
  then have "prefix = take (length (rev (dropWhile is_digit (rev stem))))
                        (rev (dropWhile is_digit (rev stem)) @ ds)"
    using r(1) st by simp
  then have "prefix = rev (dropWhile is_digit (rev stem))" by simp
  then have stem: "stem = prefix @ digits" using st r(2) by simp
  have "\<forall>c \<in> set (takeWhile is_digit (rev stem)). is_digit c"
    using set_takeWhileD by fastforce
  then have "list_all is_digit digits" using r(2) by (simp add: list_all_iff ds_def)
  moreover have "f = prefix @ digits @ suffix" using f stem r(3) by simp
  ultimately show ?thesis using r c(2) by blast
qed

lemma dot_not_digit: "\<not> is_digit dot"
  by (simp add: is_digit_def dot_def)

lemma match_own_name:
  assumes "find_sequence_digits f = Some (prefix, digits, suffix)"
  shows "match_sequence prefix suffix f = Some digits"
proof -
  obtain ext where p: "f = prefix @ digits @ suffix" "digits \<noteq> []" "list_all is_digit digits"
      "suffix = dot # ext"
    using find_sequence_digits_parts [OF assms] by blast
  have "takeWhile is_digit (digits @ dot # ext) = digits"
    using p(3) dot_not_digit by (simp add: list_all_iff)
  moreover have "dropWhile is_digit (digits @ dot # ext) = dot # ext"
    using p(3) dot_not_digit by (simp add: list_all_iff)
  ultimately show ?thesis using p by (simp add: match_sequence_def)
qed

subsection \<open>The sequence plan\<close>

lemma match_sequence_digits:
  assumes "match_sequence prefix suffix f = Some d"
  shows "d \<noteq> [] \<and> list_all is_digit d"
proof -
  have d: "d = takeWhile is_digit (drop (length prefix) f)" "d \<noteq> []"
    using assms by (auto simp: match_sequence_def Let_def split: if_splits)
  have "\<forall>c \<in> set (takeWhile is_digit (drop (length prefix) f)). is_digit c"
    using set_takeWhileD by fastforce
  then show ?thesis using d by (simp add: list_all_iff)
qed

lemma py_str_nat: "py_str (int n) = nat_digits n"
  by (simp add: py_str_def)

lemma scan_entry_total:
  "scan_entry base_dir prefix suffix f = Inr (sibling_entry base_dir prefix suffix f)"
proof (cases "match_sequence prefix suffix f")
  case None
  then show ?thesis by (simp add: scan_entry_def sibling_entry_def)
next
  case (Some d)
  then have d: "d \<noteq> []" "list_all is_digit d" using match_sequence_digits by blast+
  show ?thesis
    using Some py_int_digits [OF d] nat_digits_digits_value [OF d]
    by (simp add: scan_entry_def sibling_entry_def py_str_nat)
qed

lemma mapE_total:
  assumes "\<And>x. f x = Inr (g x)"
  shows "mapE f xs = Inr (map g xs)"
  by (induction xs) (simp_all add: assms)

lemma found_sequences_total:
  "found_sequences base_dir prefix suffix all_files =
     Inr (sort_key (\<lambda>x. snd (snd x))
            (concat (map (sibling_entry base_dir prefix suffix) all_files)))"
  using mapE_total [of "scan_entry base_dir prefix suffix" "sibling_entry base_dir prefix suffix" all_files]
  by (simp add: found_sequences_def scan_entry_total ebind_def)

lemma resolve_plan_sequence:
  assumes "find_sequence_digits (basename filepath) = Some (prefix, digits, suffix)"
      and "w_listdir w (dirname filepath) = Some all_files"
  shows "fst (resolve_plan w filepath True) =
           Inr (let found = sort_key (\<lambda>x. snd (snd x))
                              (concat (map (sibling_entry (dirname filepath) prefix suffix) all_files))
                in if found \<noteq> [] then map (\<lambda>x. (fst x, Some (fst (snd x)))) found
                   else [(filepath, None)],
                path_join (dirname filepath) (name_base_of prefix @ ''all.vdb''))"
  using assms by (simp add: resolve_plan_def Let_def found_sequences_total)

lemma three_files_plan:
  "fst (resolve_plan
          (world_of Map.empty (\<lambda>_. Some [''a2.cub'', ''a010.cub'', ''a001.cub'']) :: (int, int) world)
          ''d/a2.cub'' True)
   = Inr ([(''d/a001.cub'', Some ''1''), (''d/a2.cub'', Some ''2''), (''d/a010.cub'', Some ''10'')],
          ''d/a_all.vdb'')"
  by code_simp

text \<open>
  Claim C3. With sequence mode on, a file name with a run of digits before its
  extension and a directory in which some entry matches the pattern, the plan lists
  the matching entries sorted by the integer value of their digits (not by their
  text); each entry's name is that integer written out, which is the run of digits
  without its leading zeros. The entries a2.cub, a010.cub, a001.cub give the plan
  a001.cub (named 1), a2.cub (named 2), a010.cub (named 10).
\<close>

theorem sequence_plan_sorted:
  assumes "find_sequence_digits (basename filepath) = Some (prefix, digits, suffix)"
      and "w_listdir w (dirname filepath) = Some all_files"
      and "list_ex (\<lambda>f. match_sequence prefix suffix f \<noteq> None) all_files"
  shows "(\<exists>found out.
            fst (resolve_plan w filepath True)
              = Inr (map (\<lambda>x. (fst x, Some (fst (snd x)))) found, out)
          \<and> found = sort_key (\<lambda>x. snd (snd x))
                       (concat (map (sibling_entry (dirname filepath) prefix suffix) all_files))
          \<and> sorted (map (\<lambda>x. snd (snd x)) found)
          \<and> (\<forall>x \<in> set found. \<exists>f \<in> set all_files. \<exists>d.
                 match_sequence prefix suffix f = Some d
               \<and> fst x = path_join (dirname filepath) f
               \<and> py_int d = Some (snd (snd x))
               \<and> fst (snd x) = py_str (snd (snd x))
               \<and> fst (snd x) = strip_zeros d))
       \<and> fst (resolve_plan
                (world_of Map.empty (\<lambda>_. Some [''a2.cub'', ''a010.cub'', ''a001.cub''])
                   :: (int, int) world)
                ''d/a2.cub'' True)
         = Inr ([(''d/a001.cub'', Some ''1''), (''d/a2.cub'', Some ''2''),
                 (''d/a010.cub'', Some ''10'')], ''d/a_all.vdb'')"
proof -
  define entries where
    "entries = concat (map (sibling_entry (dirname filepath) prefix suffix) all_files)"
  define found where "found = sort_key (\<lambda>x. snd (snd x)) entries"
  obtain f0 d0 where f0: "f0 \<in> set all_files" "match_sequence prefix suffix f0 = Some d0"
    using assms(3) by (auto simp: list_ex_iff)
  then have "sibling_entry (dirname filepath) prefix suffix f0 \<noteq> []"
    by (simp add: sibling_entry_def)
  then have "entries \<noteq> []" using f0(1) unfolding entries_def by auto
  then have ne: "found \<noteq> []" unfolding found_def
    by (metis length_sort length_0_conv)
  have plan: "fst (resolve_plan w filepath True)
      = Inr (map (\<lambda>x. (fst x, Some (fst (snd x)))) found,
             path_join (dirname filepath) (name_base_of prefix @ ''all.vdb''))"
    using resolve_plan_sequence [OF assms(1,2)] ne
    unfolding found_def entries_def by (simp add: Let_def)
  have srt: "sorted (map (\<lambda>x. snd (snd x)) found)"
    unfolding found_def by (rule sorted_sort_key)
  have each: "\<exists>f \<in> set all_files. \<exists>d.
                 match_sequence prefix suffix f = Some d
               \<and> fst x = path_join (dirname filepath) f
               \<and> py_int d = Some (snd (snd x))
               \<and> fst (snd x) = py_str (snd (snd x))
               \<and> fst (snd x) = strip_zeros d" if "x \<in> set found" for x
  proof -
    have "x \<in> set entries" using that unfolding found_def by simp
    then obtain f where f: "f \<in> set all_files"
        "x \<in> set (sibling_entry (dirname filepath) prefix suffix f)"
      unfolding entries_def by auto
    then obtain d where d: "match_sequence prefix suffix f = Some d"
        "x = (path_join (dirname filepath) f, strip_zeros d, int (digits_value d))"
      by (cases "match_sequence prefix suffix f") (simp_all add: sibling_entry_def)
    have dd: "d \<noteq> []" "list_all is_digit d" using d(1) match_sequence_digits by blast+
    have a: "py_int d = Some (snd (snd x))" using py_int_digits [OF dd] d(2) by simp
    have b: "fst (snd x) = py_str (snd (snd x))"
      using nat_digits_digits_value [OF dd] d(2) by (simp add: py_str_nat)
    have c: "fst x = path_join (dirname filepath) f" "fst (snd x) = strip_zeros d"
      using d(2) by simp_all
    show ?thesis
      by (rule bexI [OF _ f(1)], rule exI [of _ d]) (simp only: d(1) a b [symmetric] c)
  qed
  show ?thesis
    using plan srt each three_files_plan unfolding found_def entries_def by blast
qed

theorem sequence_plan_sorted_witness:
  "\<exists>(found :: (string \<times> string \<times> int) list) out.
     fst (resolve_plan
            (world_of Map.empty (\<lambda>_. Some [''a2.cub'', ''a010.cub'', ''a001.cub''])
               :: (int, int) world)
            ''d/a2.cub'' True)
       = Inr (map (\<lambda>x. (fst x, Some (fst (snd x)))) found, out)
     \<and> sorted (map (\<lambda>x. snd (snd x)) found)"
proof -
  let ?W = "world_of Map.empty (\<lambda>_. Some [''a2.cub'', ''a010.cub'', ''a001.cub'']) :: (int, int) world"
  have h1: "find_sequence_digits (basename ''d/a2.cub'') = Some (''a'', ''2'', ''.cub'')"
    by code_simp
  have h2: "w_listdir ?W (dirname ''d/a2.cub'') = Some [''a2.cub'', ''a010.cub'', ''a001.cub'']"
    by (simp add: world_of_def)
  have h3: "list_ex (\<lambda>f. match_sequence ''a'' ''.cub'' f \<noteq> None) [''a2.cub'', ''a010.cub'', ''a001.cub'']"
    by code_simp
  show ?thesis
    using sequence_plan_sorted [OF h1 h2 h3] by blast
qed

lemma resolve_plan_single:
  assumes "\<not> import_sequence \<or> find_sequence_digits (basename filepath) = None"
  shows "fst (resolve_plan w filepath import_sequence)
         = Inr ([(filepath, None)], fst (splitext filepath) @ ''.vdb'')"
  using assms by (auto simp: resolve_plan_def Let_def)

lemma resolve_plan_all_name:
  assumes "find_sequence_digits (basename filepath) = Some (prefix, digits, suffix)"
      and "fst (resolve_plan w filepath True) = Inr (plan, out)"
  shows "out = path_join (dirname filepath) (name_base_of prefix @ ''all.vdb'')"
  using assms
  by (auto simp: resolve_plan_def Let_def split: option.splits sum.splits if_splits)

lemma resolve_plan_own_name:
  assumes "find_sequence_digits (basename filepath) = Some (prefix, digits, suffix)"
      and "w_listdir w (dirname filepath) = Some all_files"
      and "basename filepath \<in> set all_files"
  shows "\<exists>plan out. fst (resolve_plan w filepath True) = Inr (plan, out)
           \<and> plan \<noteq> [] \<and> list_all (\<lambda>e. snd e \<noteq> None) plan"
proof -
  define entries where
    "entries = concat (map (sibling_entry (dirname filepath) prefix suffix) all_files)"
  define found where "found = sort_key (\<lambda>x. snd (snd x)) entries"
  have "sibling_entry (dirname filepath) prefix suffix (basename filepath) \<noteq> []"
    using match_own_name [OF assms(1)] by (simp add: sibling_entry_def)
  then have "entries \<noteq> []" using assms(3) unfolding entries_def by auto
  then have ne: "found \<noteq> []" unfolding found_def by (metis length_sort length_0_conv)
  have "fst (resolve_plan w filepath True)
      = Inr (map (\<lambda>x. (fst x, Some (fst (snd x)))) found,
             path_join (dirname filepath) (name_base_of prefix @ ''all.vdb''))"
    using resolve_plan_sequence [OF assms(1,2)] ne
    unfolding found_def entries_def by (simp add: Let_def)
  moreover have "map (\<lambda>x. (fst x, Some (fst (snd x)))) found \<noteq> []" using ne by simp
  moreover have "list_all (\<lambda>e. snd e \<noteq> None) (map (\<lambda>x. (fst x, Some (fst (snd x)))) found)"
    by (simp add: list_all_iff)
  ultimately show ?thesis by blast
qed

lemma addon_output_name:
  assumes "addon_load_cube lib files filepath scale naming = Some (Inr (out, grids))"
  shows "out = fst (splitext filepath) @ ''.vdb''"
  using assms
  by (auto simp: addon_load_cube_def ebind_def split: option.splits sum.splits)

text \<open>
  Claim C10, as amended. With sequence mode off, or when the file name has no run of
  digits before its extension, the plan is the original file alone and the output
  name is the input path with its extension replaced by .vdb. With sequence mode on
  and such a run of digits, the output name is the prefix (followed by an underscore
  unless it ends in an underscore or a dot) and all.vdb in the directory of the file,
  whether or not an entry of the directory matched; when the listing of the directory
  contains the name of the file itself, some entry matches and every entry of the
  plan carries a name. The older add-on always writes to the input path with its
  extension replaced by .vdb.
\<close>

theorem output_name_rule:
  "(\<not> import_sequence \<or> find_sequence_digits (basename filepath) = None \<longrightarrow>
      fst (resolve_plan w filepath import_sequence)
        = Inr ([(filepath, None)], fst (splitext filepath) @ ''.vdb''))
   \<and> (find_sequence_digits (basename filepath) = Some (prefix, digits, suffix)
        \<and> fst (resolve_plan w filepath True) = Inr (plan, out) \<longrightarrow>
      out = path_join (dirname filepath) (name_base_of prefix @ ''all.vdb''))
   \<and> (find_sequence_digits (basename filepath) = Some (prefix, digits, suffix)
        \<and> w_listdir w (dirname filepath) = Some all_files
        \<and> basename filepath \<in> set all_files \<longrightarrow>
      (\<exists>plan' out'. fst (resolve_plan w filepath True) = Inr (plan', out')
           \<and> plan' \<noteq> [] \<and> list_all (\<lambda>e. snd e \<noteq> None) plan'))
   \<and> (addon_load_cube lib files filepath scale naming = Some (Inr (out2, grids)) \<longrightarrow>
      out2 = fst (splitext filepath) @ ''.vdb'')"
  using resolve_plan_single [of import_sequence filepath w]
        resolve_plan_all_name [of filepath prefix digits suffix w plan out]
        resolve_plan_own_name [of filepath prefix digits suffix w all_files]
        addon_output_name [of lib files filepath scale naming out2 grids]
  by blast

theorem output_name_rule_witness:
  "fst (resolve_plan (world_of Map.empty (\<lambda>_. Some [''a1.cub'']) :: (int, int) world)
          ''d/a1.cub'' False)
     = Inr ([(''d/a1.cub'', None)], ''d/a1.vdb'')
   \<and> (\<exists>plan out.
         fst (resolve_plan (world_of Map.empty (\<lambda>_. Some [''a1.cub'']) :: (int, int) world)
                ''d/a1.cub'' True) = Inr (plan, out)
       \<and> plan \<noteq> [] \<and> list_all (\<lambda>e. snd e \<noteq> None) plan \<and> out = ''d/a_all.vdb'')"
proof -
  let ?W = "world_of Map.empty (\<lambda>_. Some [''a1.cub'']) :: (int, int) world"
  note rule = output_name_rule [where w = ?W and filepath = "''d/a1.cub''" and prefix = "''a''"
      and digits = "''1''" and suffix = "''.cub''" and all_files = "[''a1.cub'']"]
  have ext: "fst (splitext ''d/a1.cub'') @ ''.vdb'' = ''d/a1.vdb''" by code_simp
  have first: "fst (resolve_plan ?W ''d/a1.cub'' False) = Inr ([(''d/a1.cub'', None)], ''d/a1.vdb'')"
    using rule [where import_sequence = False, THEN conjunct1] ext by simp
  have h1: "find_sequence_digits (basename ''d/a1.cub'') = Some (''a'', ''1'', ''.cub'')"
    by code_simp
  have h2: "w_listdir ?W (dirname ''d/a1.cub'') = Some [''a1.cub'']"
    by (simp add: world_of_def)
  have h3: "basename ''d/a1.cub'' \<in> set [''a1.cub'']" by code_simp
  obtain plan out where p: "fst (resolve_plan ?W ''d/a1.cub'' True) = Inr (plan, out)"
      "plan \<noteq> []" "list_all (\<lambda>e. snd e \<noteq> None) plan"
    using rule [where import_sequence = True, THEN conjunct2, THEN conjunct2, THEN conjunct1]
          h1 h2 h3 by blast
  have "out = path_join (dirname ''d/a1.cub'') (name_base_of ''a'' @ ''all.vdb'')"
    using rule [where import_sequence = True and plan = plan and out = out,
                THEN conjunct2, THEN conjunct1] h1 p(1) by blast
  also have "\<dots> = ''d/a_all.vdb''" by code_simp
  finally have "out = ''d/a_all.vdb''" .
  then show ?thesis using first p by blast
qed

text \<open>
  Claim C10 as stated fails: the name ending in all.vdb is set before the directory is
  scanned. For d/A1.cub and a listing that holds a1.cub only, nothing matches, the
  plan falls back to the original file, and the batch is still written to
  d/A_all.vdb, not to d/A1.vdb.
\<close>

theorem output_name_counterexample:
  "fst (resolve_plan (world_of Map.empty (\<lambda>_. Some [''a1.cub'']) :: (int, int) world)
          ''d/A1.cub'' True)
     = Inr ([(''d/A1.cub'', None)], ''d/A_all.vdb'')
   \<and> fst (splitext ''d/A1.cub'') @ ''.vdb'' = ''d/A1.vdb''
   \<and> map_option (\<lambda>r. (fst r, map fst (w_written (snd r))))
        (load_cube integer_lib
           (world_of (Map.empty(''d/A1.cub'' \<mapsto> density_2x2x2)) (\<lambda>_. Some [''a1.cub'']))
           ''d/A1.cub'' 1 MO_INDICES True)
     = Some (Inr (), [''d/A_all.vdb''])"
  by code_simp

subsection \<open>Grid names\<close>

lemma mapE_Inr:
  assumes "mapE f xs = Inr ys"
  shows "length ys = length xs \<and> (\<forall>i < length xs. f (xs ! i) = Inr (ys ! i))"
  using assms
proof (induction xs arbitrary: ys)
  case Nil
  then show ?case by simp
next
  case (Cons x xs)
  from Cons.prems obtain y ys' where y: "f x = Inr y" "mapE f xs = Inr ys'" "ys = y # ys'"
    by (auto split: sum.splits)
  have ih: "length ys' = length xs \<and> (\<forall>i < length xs. f (xs ! i) = Inr (ys' ! i))"
    using Cons.IH [OF y(2)] .
  show ?case
  proof (intro conjI allI impI)
    show "length ys = length (x # xs)" using ih y(3) by simp
    fix i assume "i < length (x # xs)"
    then show "f ((x # xs) ! i) = Inr (ys ! i)"
      using ih y(1,3) by (cases i) simp_all
  qed
qed

lemma make_grid_name:
  "make_grid lib arr tr naming m = Inr g \<Longrightarrow> naming m = Inr (g_name g)"
  by (auto simp: make_grid_def ebind_def split: sum.splits)

lemma assemble_names:
  assumes "assemble lib c data scale naming = Inr grids"
  shows "length grids = nat (cube_n_mo c)
         \<and> (\<forall>m < nat (cube_n_mo c). naming m = Inr (g_name (grids ! m)))"
proof -
  from assms obtain arr tr where
    m: "mapE (make_grid lib arr tr naming) [0..<nat (cube_n_mo c)] = Inr grids"
    by (auto simp: assemble_def ebind_def Let_def split: sum.splits option.splits)
  have l: "length grids = nat (cube_n_mo c)"
    and e: "\<forall>i < nat (cube_n_mo c). make_grid lib arr tr naming ([0..<nat (cube_n_mo c)] ! i) = Inr (grids ! i)"
    using mapE_Inr [OF m] by simp_all
  have "naming i = Inr (g_name (grids ! i))" if "i < nat (cube_n_mo c)" for i
    using e that make_grid_name [of lib arr tr naming i "grids ! i"] by simp
  then show ?thesis using l by blast
qed

lemma read_vdb_grids_assemble:
  assumes "w_files w filepath = Some text"
      and "parse_cube True (py_float lib) text = Some (Inr c)"
      and "read_vdb_grids lib w filepath scale naming force = Some (Inr grids, w')"
  shows "assemble lib c (np_fromstring lib (cube_content c)) scale
           (grid_name_for force (geo_multi (cube_geo c)) naming (cube_indices c) (cube_n_mo c))
         = Inr grids"
  using assms by (simp add: read_vdb_grids_def Let_def)

lemma addon_load_cube_assemble:
  assumes "files filepath = Some text"
      and "parse_cube False (py_float lib) text = Some (Inr c)"
      and "addon_load_cube lib files filepath scale naming = Some (Inr (out, grids))"
  shows "assemble lib c (np_fromstring lib (cube_content c)) scale
           (addon_grid_name (geo_multi (cube_geo c)) naming (cube_indices c))
         = Inr grids"
  using assms by (auto simp: addon_load_cube_def ebind_def split: sum.splits)

lemma orbitals_5_7_parsed:
  "parse_cube True py_int orbitals_5_7 =
     Some (Inr \<lparr>cube_geo =
                  \<lparr>geo_multi = True, geo_atoms = 1, geo_origin = [0, 0, 0],
                   geo_n1 = 1, geo_v1 = [1, 0, 0], geo_n2 = 1, geo_v2 = [0, 1, 0],
                   geo_n3 = 2, geo_v3 = [0, 0, 1]\<rparr>,
                cube_n_mo = 2, cube_indices = [5, 7],
                cube_content = ''1 2 3 4\<newline>''\<rparr>)"
  by code_simp

lemma orbitals_5_7_parsed_addon:
  "parse_cube False py_int orbitals_5_7 =
     Some (Inr \<lparr>cube_geo =
                  \<lparr>geo_multi = True, geo_atoms = 1, geo_origin = [0, 0, 0],
                   geo_n1 = 1, geo_v1 = [1, 0, 0], geo_n2 = 1, geo_v2 = [0, 1, 0],
                   geo_n3 = 2, geo_v3 = [0, 0, 1]\<rparr>,
                cube_n_mo = 2, cube_indices = [5, 7],
                cube_content = ''1 2 3 4\<newline>''\<rparr>)"
  by code_simp

lemma orbitals_5_7_grids:
  "map_option fst
     (read_vdb_grids integer_lib (world_of (Map.empty(''m.cub'' \<mapsto> orbitals_5_7)) (\<lambda>_. None))
        ''m.cub'' 1 MO_INDICES None)
   = Some (Inr [\<lparr>g_name = ''5'', g_voxels = [[[1, 3]]],
                  g_transform = [[1, 0, 0, 0], [0, 1, 0, 0], [0, 0, 1, 0], [0, 0, 0, 1]],
                  g_class = FOG_VOLUME\<rparr>,
                \<lparr>g_name = ''7'', g_voxels = [[[2, 4]]],
                  g_transform = [[1, 0, 0, 0], [0, 1, 0, 0], [0, 0, 1, 0], [0, 0, 0, 1]],
                  g_class = FOG_VOLUME\<rparr>])"
  by code_simp

lemma orbitals_5_7_addon:
  "addon_load_cube integer_lib (Map.empty(''m.cub'' \<mapsto> orbitals_5_7)) ''m.cub'' 1 MO_INDICES
   = Some (Inr (''m.vdb'',
        [\<lparr>g_name = ''MO_5'', g_voxels = [[[1, 3]]],
            g_transform = [[1, 0, 0, 0], [0, 1, 0, 0], [0, 0, 1, 0], [0, 0, 0, 1]],
            g_class = FOG_VOLUME\<rparr>,
         \<lparr>g_name = ''MO_7'', g_voxels = [[[2, 4]]],
            g_transform = [[1, 0, 0, 0], [0, 1, 0, 0], [0, 0, 1, 0], [0, 0, 0, 1]],
            g_class = FOG_VOLUME\<rparr>]))"
  by code_simp

text \<open>
  Claim C4, as amended. In \<^verbatim>\<open>read_vdb_grids\<close> a file with \<open>F\<close> fields yields \<open>F\<close>
  grids, and the name of the grid of field \<open>m\<close> (counted from 0) is: with a forced
  base name, the base name when \<open>F = 1\<close> and the base name, an underscore and
  \<open>m + 1\<close> otherwise; without one, Density for single-field framing; otherwise the
  \<open>m\<close>-th declared index written out when the naming mode is by declared index and
  indices were declared; otherwise \<open>m + 1\<close> written out. The older add-on has no
  forced base name, names a single-field grid Density, and puts the prefix MO_ before
  the declared index or before \<open>m + 1\<close>.
\<close>

theorem grid_names_policy:
  "(w_files w filepath = Some content
      \<and> parse_cube True (py_float lib) content = Some (Inr c)
      \<and> read_vdb_grids lib w filepath scale naming force = Some (Inr grids, w')
      \<and> m < nat (cube_n_mo c) \<longrightarrow>
    length grids = nat (cube_n_mo c)
    \<and> g_name (grids ! m) =
        (case force of
           Some base \<Rightarrow> if cube_n_mo c = 1 then base else base @ ''_'' @ py_str (int m + 1)
         | None \<Rightarrow>
             if \<not> geo_multi (cube_geo c) then ''Density''
             else if naming = MO_INDICES \<and> cube_indices c \<noteq> [] then py_str (cube_indices c ! m)
             else py_str (int m + 1)))
   \<and> (files filepath = Some content_b
      \<and> parse_cube False (py_float lib) content_b = Some (Inr c_b)
      \<and> addon_load_cube lib files filepath scale naming = Some (Inr (out, grids_b))
      \<and> m_b < nat (cube_n_mo c_b) \<longrightarrow>
    length grids_b = nat (cube_n_mo c_b)
    \<and> g_name (grids_b ! m_b) =
        (if \<not> geo_multi (cube_geo c_b) then ''Density''
         else if naming = MO_INDICES \<and> cube_indices c_b \<noteq> []
           then ''MO_'' @ py_str (cube_indices c_b ! m_b)
         else ''MO_'' @ py_str (int m_b + 1)))"
proof (intro conjI impI)
  assume a: "w_files w filepath = Some content
      \<and> parse_cube True (py_float lib) content = Some (Inr c)
      \<and> read_vdb_grids lib w filepath scale naming force = Some (Inr grids, w')
      \<and> m < nat (cube_n_mo c)"
  then have asm: "assemble lib c (np_fromstring lib (cube_content c)) scale
           (grid_name_for force (geo_multi (cube_geo c)) naming (cube_indices c) (cube_n_mo c))
         = Inr grids"
    using read_vdb_grids_assemble by blast
  have nm: "grid_name_for force (geo_multi (cube_geo c)) naming (cube_indices c) (cube_n_mo c) m
            = Inr (g_name (grids ! m))"
    using assemble_names [OF asm] a by blast
  show "length grids = nat (cube_n_mo c)" using assemble_names [OF asm] by blast
  have pos: "1 \<le> cube_n_mo c" using a by linarith
  show "g_name (grids ! m) =
        (case force of
           Some base \<Rightarrow> if cube_n_mo c = 1 then base else base @ ''_'' @ py_str (int m + 1)
         | None \<Rightarrow>
             if \<not> geo_multi (cube_geo c) then ''Density''
             else if naming = MO_INDICES \<and> cube_indices c \<noteq> [] then py_str (cube_indices c ! m)
             else py_str (int m + 1))"
    using nm pos by (auto simp: grid_name_for_def split: option.splits if_splits)
next
  assume a: "files filepath = Some content_b
      \<and> parse_cube False (py_float lib) content_b = Some (Inr c_b)
      \<and> addon_load_cube lib files filepath scale naming = Some (Inr (out, grids_b))
      \<and> m_b < nat (cube_n_mo c_b)"
  then have asm: "assemble lib c_b (np_fromstring lib (cube_content c_b)) scale
           (addon_grid_name (geo_multi (cube_geo c_b)) naming (cube_indices c_b))
         = Inr grids_b"
    using addon_load_cube_assemble by blast
  have nm: "addon_grid_name (geo_multi (cube_geo c_b)) naming (cube_indices c_b) m_b
            = Inr (g_name (grids_b ! m_b))"
    using assemble_names [OF asm] a by blast
  show "length grids_b = nat (cube_n_mo c_b)" using assemble_names [OF asm] by blast
  show "g_name (grids_b ! m_b) =
        (if \<not> geo_multi (cube_geo c_b) then ''Density''
         else if naming = MO_INDICES \<and> cube_indices c_b \<noteq> []
           then ''MO_'' @ py_str (cube_indices c_b ! m_b)
         else ''MO_'' @ py_str (int m_b + 1))"
    using nm by (auto simp: addon_grid_name_def split: if_splits)
qed

theorem grid_names_policy_witness:
  "(\<exists>grids w'.
      read_vdb_grids integer_lib (world_of (Map.empty(''m.cub'' \<mapsto> orbitals_5_7)) (\<lambda>_. None))
        ''m.cub'' 1 MO_INDICES None = Some (Inr grids, w')
      \<and> length grids = 2 \<and> g_name (grids ! 1) = py_str 7)
   \<and> (\<exists>out grids.
      addon_load_cube integer_lib (Map.empty(''m.cub'' \<mapsto> orbitals_5_7)) ''m.cub'' 1 MO_INDICES
        = Some (Inr (out, grids))
      \<and> length grids = 2 \<and> g_name (grids ! 1) = ''MO_'' @ py_str 7)"
proof -
  let ?W = "world_of (Map.empty(''m.cub'' \<mapsto> orbitals_5_7)) (\<lambda>_. None) :: (int, int list list) world"
  let ?c = "\<lparr>cube_geo =
                  \<lparr>geo_multi = True, geo_atoms = 1, geo_origin = [0, 0, 0 :: int],
                   geo_n1 = 1, geo_v1 = [1, 0, 0], geo_n2 = 1, geo_v2 = [0, 1, 0],
                   geo_n3 = 2, geo_v3 = [0, 0, 1]\<rparr>,
                cube_n_mo = 2, cube_indices = [5, 7],
                cube_content = ''1 2 3 4\<newline>''\<rparr>"
  have f: "w_files ?W ''m.cub'' = Some orbitals_5_7" by (simp add: world_of_def)
  have f2: "(Map.empty(''m.cub'' \<mapsto> orbitals_5_7)) ''m.cub'' = Some orbitals_5_7" by simp
  have p: "parse_cube True (py_float integer_lib) orbitals_5_7 = Some (Inr ?c)"
    using orbitals_5_7_parsed by (simp add: integer_lib_def)
  have p2: "parse_cube False (py_float integer_lib) orbitals_5_7 = Some (Inr ?c)"
    using orbitals_5_7_parsed_addon by (simp add: integer_lib_def)
  have m: "(1::nat) < nat (cube_n_mo ?c)" by simp
  obtain grids w' where r:
      "read_vdb_grids integer_lib ?W ''m.cub'' 1 MO_INDICES None = Some (Inr grids, w')"
    using orbitals_5_7_grids by auto
  obtain out grids2 where r2:
      "addon_load_cube integer_lib (Map.empty(''m.cub'' \<mapsto> orbitals_5_7)) ''m.cub'' 1 MO_INDICES
        = Some (Inr (out, grids2))"
    using orbitals_5_7_addon by auto
  note rule = grid_names_policy [where w = ?W and filepath = "''m.cub''" and content = orbitals_5_7
      and lib = integer_lib and c = ?c and scale = 1 and naming = MO_INDICES and force = None
      and grids = grids and w' = w' and m = 1
      and files = "Map.empty(''m.cub'' \<mapsto> orbitals_5_7)" and content_b = orbitals_5_7
      and c_b = ?c and out = out and grids_b = grids2 and m_b = 1]
  have a: "length grids = 2 \<and> g_name (grids ! 1) = py_str 7"
    using rule [THEN conjunct1] f p r m by simp
  have b: "length grids2 = 2 \<and> g_name (grids2 ! 1) = ''MO_'' @ py_str 7"
    using rule [THEN conjunct2] f2 p2 r2 m by simp
  show ?thesis using r a r2 b by blast
qed

text \<open>
  Claim C4 as stated fails in the older add-on: for the file with the declared indices
  5 and 7 its grids are named MO_5 and MO_7, not 5 and 7.
\<close>

theorem grid_names_counterexample:
  "map_option (map_sum id (\<lambda>r. map g_name (snd r)))
     (addon_load_cube integer_lib (Map.empty(''m.cub'' \<mapsto> orbitals_5_7)) ''m.cub'' 1 MO_INDICES)
     = Some (Inr [''MO_5'', ''MO_7''])
   \<and> py_str 5 = ''5'' \<and> py_str 7 = ''7''"
  by code_simp

subsection \<open>A truncated atom block\<close>

lemma skip_lines_6:
  "skip_lines 6 s =
     snd (readline (snd (readline (snd (readline (snd (readline (snd (readline (snd (readline s)))))))))))"
  by (simp add: numeral_eq_Suc)

lemma read_geometry_rest:
  assumes "read_geometry guard pf content = Inr (geo, rest)"
  shows "rest = skip_lines (nat (geo_atoms geo)) (skip_lines 6 content)"
  using assms unfolding read_geometry_def skip_lines_6 ebind_def
  by (auto split: prod.splits sum.splits if_splits)

lemma skip_lines_Nil: "skip_lines n [] = []"
  by (induction n) simp_all

lemma skip_lines_add: "skip_lines (a + b) s = skip_lines b (skip_lines a s)"
  by (induction a arbitrary: s) simp_all

lemma skip_lines_exhausted:
  assumes "k < n" "skip_lines k s = []"
  shows "skip_lines n s = []"
proof -
  have "skip_lines (k + (n - k)) s = skip_lines (n - k) (skip_lines k s)"
    by (rule skip_lines_add)
  then show ?thesis using assms by (simp add: skip_lines_Nil)
qed

lemma read_mo_header_exhausted:
  "read_mo_header multi [] = Some (if multi then Inl IndexError else Inr (1, [], []))"
  by (simp add: read_mo_header_def split_ws_def)

lemma reconcile_empty: "0 \<le> e \<Longrightarrow> reconcile e [] = replicate (nat e) 0"
  by (simp add: reconcile_def)

lemma truncated_atoms_geometry:
  "read_geometry True py_int truncated_atoms =
     Inr (\<lparr>geo_multi = False, geo_atoms = 2, geo_origin = [0, 0, 0],
            geo_n1 = 1, geo_v1 = [1, 0, 0], geo_n2 = 1, geo_v2 = [0, 1, 0],
            geo_n3 = 2, geo_v3 = [0, 0, 1]\<rparr>, [])"
  by code_simp

lemma truncated_orbitals_geometry:
  "read_geometry True py_int truncated_orbitals =
     Inr (\<lparr>geo_multi = True, geo_atoms = 2, geo_origin = [0, 0, 0],
            geo_n1 = 1, geo_v1 = [1, 0, 0], geo_n2 = 1, geo_v2 = [0, 1, 0],
            geo_n3 = 2, geo_v3 = [0, 0, 1]\<rparr>, [])"
  by code_simp

lemma truncated_exhausted:
  "skip_lines 1 (skip_lines 6 truncated_atoms) = []"
  "skip_lines 1 (skip_lines 6 truncated_orbitals) = []"
  by code_simp+

text \<open>
  Claim C7, as amended. Take a file whose header lines parse and whose stream is
  exhausted after \<open>k\<close> atom lines, \<open>k\<close> below the atom count. With multi-field
  framing the parser raises IndexError at the missing line of the field count. With
  single-field framing the parser raises nothing and returns the header with an empty
  payload; then, for counts that are not negative, an empty tokenized payload and a
  transform the library accepts, \<^verbatim>\<open>read_vdb_grids\<close> returns one grid named Density
  whose voxels are all zero.
\<close>

theorem truncated_atom_block:
  assumes "read_geometry guard pf content = Inr (geo, rest)"
      and "k < nat (geo_atoms geo)"
      and "skip_lines k (skip_lines 6 content) = []"
  shows "parse_cube guard pf content =
           Some (if geo_multi geo then Inl IndexError
                 else Inr \<lparr>cube_geo = geo, cube_n_mo = 1, cube_indices = [], cube_content = []\<rparr>)
       \<and> (\<not> geo_multi geo \<and> guard \<and> pf = py_float lib \<and> w_files w filepath = Some content
            \<and> np_fromstring lib [] = []
            \<and> 0 \<le> geo_n1 geo \<and> 0 \<le> geo_n2 geo \<and> 0 \<le> geo_n3 geo
            \<and> transform_matrix (geo_v1 geo) (geo_v2 geo) (geo_v3 geo) (geo_origin geo) scale = Inr mat
            \<and> createLinearTransform lib mat = Some tr \<longrightarrow>
          (\<exists>w'. read_vdb_grids lib w filepath scale naming None =
             Some (Inr [\<lparr>g_name = ''Density'',
                         g_voxels = map (map (map (astype_float32 lib)))
                           (reshape3 (nat (geo_n1 geo)) (nat (geo_n2 geo)) (nat (geo_n3 geo))
                              (replicate (nat (geo_n1 geo * geo_n2 geo * geo_n3 geo)) 0)),
                         g_transform = tr, g_class = FOG_VOLUME\<rparr>], w')))"
proof -
  have rest: "rest = []"
    using read_geometry_rest [OF assms(1)] skip_lines_exhausted [OF assms(2,3)] by simp
  have parse: "parse_cube guard pf content =
           Some (if geo_multi geo then Inl IndexError
                 else Inr \<lparr>cube_geo = geo, cube_n_mo = 1, cube_indices = [], cube_content = []\<rparr>)"
    using assms(1) rest by (simp add: parse_cube_def read_mo_header_exhausted)
  have run: "\<exists>w'. read_vdb_grids lib w filepath scale naming None =
             Some (Inr [\<lparr>g_name = ''Density'',
                         g_voxels = map (map (map (astype_float32 lib)))
                           (reshape3 (nat (geo_n1 geo)) (nat (geo_n2 geo)) (nat (geo_n3 geo))
                              (replicate (nat (geo_n1 geo * geo_n2 geo * geo_n3 geo)) 0)),
                         g_transform = tr, g_class = FOG_VOLUME\<rparr>], w')"
    if h: "\<not> geo_multi geo" "guard" "pf = py_float lib" "w_files w filepath = Some content"
          "np_fromstring lib [] = []"
          "0 \<le> geo_n1 geo" "0 \<le> geo_n2 geo" "0 \<le> geo_n3 geo"
          "transform_matrix (geo_v1 geo) (geo_v2 geo) (geo_v3 geo) (geo_origin geo) scale = Inr mat"
          "createLinearTransform lib mat = Some tr"
  proof -
    let ?c = "\<lparr>cube_geo = geo, cube_n_mo = 1, cube_indices = [], cube_content = []\<rparr>"
    have p: "parse_cube True (py_float lib) content = Some (Inr ?c)"
      using parse h(1,2,3) by simp
    have e: "0 \<le> geo_n1 geo * geo_n2 geo * geo_n3 geo" using h(6,7,8) by simp
    have dec: "decode_payload (geo_n1 geo) (geo_n2 geo) (geo_n3 geo) 1 ([] :: 'a list) =
        Inr (Array3 (reshape3 (nat (geo_n1 geo)) (nat (geo_n2 geo)) (nat (geo_n3 geo))
               (replicate (nat (geo_n1 geo * geo_n2 geo * geo_n3 geo)) 0)))"
      using decode_payload_single [OF h(6,7,8), of "[]"] e by (simp add: reconcile_empty)
    have asm: "assemble lib ?c [] scale (grid_name_for None False naming [] 1) =
        Inr [\<lparr>g_name = ''Density'',
               g_voxels = map (map (map (astype_float32 lib)))
                 (reshape3 (nat (geo_n1 geo)) (nat (geo_n2 geo)) (nat (geo_n3 geo))
                    (replicate (nat (geo_n1 geo * geo_n2 geo * geo_n3 geo)) 0)),
               g_transform = tr, g_class = FOG_VOLUME\<rparr>]"
      using dec h(9,10)
      by (simp add: assemble_def ebind_def make_grid_def grid_name_for_def vol_data_def)
    show ?thesis
      using p h(1,4,5) asm by (simp add: read_vdb_grids_def Let_def)
  qed
  show ?thesis using parse run by blast
qed

theorem truncated_atom_block_witness:
  "parse_cube True py_int truncated_orbitals = Some (Inl IndexError)
   \<and> (\<exists>w'. read_vdb_grids integer_lib
              (world_of (Map.empty(''t.cub'' \<mapsto> truncated_atoms)) (\<lambda>_. None))
              ''t.cub'' 1 MO_INDICES None =
            Some (Inr [\<lparr>g_name = ''Density'', g_voxels = [[[0, 0]]],
                        g_transform = [[1, 0, 0, 0], [0, 1, 0, 0], [0, 0, 1, 0], [0, 0, 0, 1]],
                        g_class = FOG_VOLUME\<rparr>], w'))"
proof -
  let ?G = "\<lparr>geo_multi = False, geo_atoms = 2, geo_origin = [0, 0, 0 :: int],
            geo_n1 = 1, geo_v1 = [1, 0, 0], geo_n2 = 1, geo_v2 = [0, 1, 0],
            geo_n3 = 2, geo_v3 = [0, 0, 1]\<rparr>"
  let ?H = "\<lparr>geo_multi = True, geo_atoms = 2, geo_origin = [0, 0, 0 :: int],
            geo_n1 = 1, geo_v1 = [1, 0, 0], geo_n2 = 1, geo_v2 = [0, 1, 0],
            geo_n3 = 2, geo_v3 = [0, 0, 1]\<rparr>"
  let ?W = "world_of (Map.empty(''t.cub'' \<mapsto> truncated_atoms)) (\<lambda>_. None) :: (int, int list list) world"
  let ?I = "[[1, 0, 0, 0], [0, 1, 0, 0], [0, 0, 1, 0], [0, 0, 0, 1 :: int]]"
  have kG: "(1::nat) < nat (geo_atoms ?G)" and kH: "(1::nat) < nat (geo_atoms ?H)" by simp_all
  have multi: "parse_cube True py_int truncated_orbitals = Some (Inl IndexError)"
    using truncated_atom_block [OF truncated_orbitals_geometry kH truncated_exhausted(2),
        THEN conjunct1] by simp
  have mat: "transform_matrix (geo_v1 ?G) (geo_v2 ?G) (geo_v3 ?G) (geo_origin ?G) 1 = Inr ?I"
    by (simp add: transform_matrix_def assign_row3_def identity4_def ebind_def)
  have cond: "\<not> geo_multi ?G \<and> True \<and> py_int = py_float integer_lib
            \<and> w_files ?W ''t.cub'' = Some truncated_atoms
            \<and> np_fromstring integer_lib [] = []
            \<and> 0 \<le> geo_n1 ?G \<and> 0 \<le> geo_n2 ?G \<and> 0 \<le> geo_n3 ?G
            \<and> transform_matrix (geo_v1 ?G) (geo_v2 ?G) (geo_v3 ?G) (geo_origin ?G) 1 = Inr ?I
            \<and> createLinearTransform integer_lib ?I = Some ?I"
    using mat by (simp add: integer_lib_def world_of_def int_tokens_def split_ws_def)
  have vox: "map (map (map (astype_float32 integer_lib)))
               (reshape3 (nat (geo_n1 ?G)) (nat (geo_n2 ?G)) (nat (geo_n3 ?G))
                  (replicate (nat (geo_n1 ?G * geo_n2 ?G * geo_n3 ?G)) (0::int))) = [[[0, 0]]]"
    by code_simp
  obtain w' where "read_vdb_grids integer_lib ?W ''t.cub'' 1 MO_INDICES None =
             Some (Inr [\<lparr>g_name = ''Density'',
                         g_voxels = map (map (map (astype_float32 integer_lib)))
                           (reshape3 (nat (geo_n1 ?G)) (nat (geo_n2 ?G)) (nat (geo_n3 ?G))
                              (replicate (nat (geo_n1 ?G * geo_n2 ?G * geo_n3 ?G)) 0)),
                         g_transform = ?I, g_class = FOG_VOLUME\<rparr>], w')"
    using truncated_atom_block [where lib = integer_lib and w = ?W and filepath = "''t.cub''"
        and scale = 1 and mat = ?I and tr = ?I and naming = MO_INDICES,
        OF truncated_atoms_geometry kG truncated_exhausted(1), THEN conjunct2] cond
    by blast
  then have "read_vdb_grids integer_lib ?W ''t.cub'' 1 MO_INDICES None =
             Some (Inr [\<lparr>g_name = ''Density'', g_voxels = [[[0, 0]]],
                         g_transform = ?I, g_class = FOG_VOLUME\<rparr>], w')"
    unfolding vox .
  then show ?thesis using multi by blast
qed

text \<open>
  Claim C7 as stated fails: the file below announces two atoms and ends after the
  first atom line, and reading it raises nothing and yields a grid of zeros.
\<close>

theorem truncated_atom_block_counterexample:
  "map_option (map_sum id (\<lambda>c. geo_atoms (cube_geo c))) (parse_cube True py_int truncated_atoms)
     = Some (Inr 2)
   \<and> skip_lines 1 (skip_lines 6 truncated_atoms) = []
   \<and> map_option fst
       (read_vdb_grids integer_lib (world_of (Map.empty(''t.cub'' \<mapsto> truncated_atoms)) (\<lambda>_. None))
          ''t.cub'' 1 MO_INDICES None)
     = Some (Inr [\<lparr>g_name = ''Density'', g_voxels = [[[0, 0]]],
                    g_transform = [[1, 0, 0, 0], [0, 1, 0, 0], [0, 0, 1, 0], [0, 0, 0, 1]],
                    g_class = FOG_VOLUME\<rparr>])"
  by code_simp

subsection \<open>Distinct names\<close>

lemma py_str_no_underscore: "CHR ''_'' \<notin> set (py_str v)"
proof -
  have d: "CHR ''_'' \<notin> set (nat_digits n)" for n
  proof
    assume "CHR ''_'' \<in> set (nat_digits n)"
    then have "is_digit (CHR ''_'')"
      using nat_digits_all_digits [of n] unfolding list_all_iff by blast
    then show False using underscore_not_digit by simp
  qed
  show ?thesis
  proof (cases "v < 0")
    case True
    then have "py_str v = CHR ''-'' # nat_digits (nat (- v))" by (simp add: py_str_def)
    then show ?thesis using d [of "nat (- v)"] by simp
  next
    case False
    then have "py_str v = nat_digits (nat v)" by (simp add: py_str_def)
    then show ?thesis using d [of "nat v"] by simp
  qed
qed

lemma takeWhile_before:
  assumes "\<forall>c \<in> set b. P c" "\<not> P y"
  shows "takeWhile P (b @ y # x) = b"
  using assms by (induction b) simp_all

lemma takeWhile_whole:
  assumes "\<forall>c \<in> set b. P c"
  shows "takeWhile P b = b"
  using assms by (induction b) simp_all


lemma tag_of_name:
  assumes "n = py_str v \<or> (\<exists>x. n = py_str v @ CHR ''_'' # x)"
  shows "takeWhile (\<lambda>c. c \<noteq> CHR ''_'') n = py_str v"
proof -
  have all: "\<forall>c \<in> set (py_str v). c \<noteq> CHR ''_''"
    using py_str_no_underscore [of v] by blast
  from assms show ?thesis
  proof
    assume "n = py_str v"
    then show ?thesis using takeWhile_whole [OF all] by simp
  next
    assume "\<exists>x. n = py_str v @ CHR ''_'' # x"
    then obtain x where "n = py_str v @ CHR ''_'' # x" by blast
    then show ?thesis
      using takeWhile_before [of "py_str v" "\<lambda>c. c \<noteq> CHR ''_''" "CHR ''_''" x] all by simp
  qed
qed

lemma tagged_names_differ:
  assumes "v1 \<noteq> v2"
      and "a = py_str v1 \<or> (\<exists>x. a = py_str v1 @ CHR ''_'' # x)"
      and "b = py_str v2 \<or> (\<exists>y. b = py_str v2 @ CHR ''_'' # y)"
  shows "a \<noteq> b"
proof
  assume eq: "a = b"
  have "py_str v1 = takeWhile (\<lambda>c. c \<noteq> CHR ''_'') a"
    using tag_of_name [OF assms(2)] by simp
  also have "\<dots> = takeWhile (\<lambda>c. c \<noteq> CHR ''_'') b" by (simp only: eq)
  also have "\<dots> = py_str v2" using tag_of_name [OF assms(3)] .
  finally have "v1 = v2" by (rule py_str_inj)
  then show False using assms(1) by simp
qed

lemma forced_names_tagged:
  assumes "assemble lib c data scale (grid_name_for (Some b) multi naming idx n_mo) = Inr grids"
      and "g \<in> set grids"
  shows "g_name g = b \<or> (\<exists>x. g_name g = b @ CHR ''_'' # x)"
proof -
  obtain m where m: "m < length grids" "g = grids ! m"
    using assms(2) by (auto simp: in_set_conv_nth)
  have nm: "grid_name_for (Some b) multi naming idx n_mo m = Inr (g_name (grids ! m))"
    using assemble_names [OF assms(1)] m(1) by simp
  show ?thesis
  proof (cases "n_mo > 1")
    case True
    then have "g_name g = b @ CHR ''_'' # py_str (int m + 1)"
      using nm m(2) by (simp add: grid_name_for_def)
    then show ?thesis by blast
  next
    case False
    then have "g_name g = b" using nm m(2) by (simp add: grid_name_for_def)
    then show ?thesis by simp
  qed
qed


lemma parse_cube_single_framing:
  assumes "parse_cube guard pf content = Some (Inr c)" "\<not> geo_multi (cube_geo c)"
  shows "cube_n_mo c = 1"
proof -
  from assms(1) obtain geo s n_mo idx rest where
      g: "read_geometry guard pf content = Inr (geo, s)"
      and h: "read_mo_header (geo_multi geo) s = Some (Inr (n_mo, idx, rest))"
      and c: "c = \<lparr>cube_geo = geo, cube_n_mo = n_mo, cube_indices = idx, cube_content = rest\<rparr>"
    by (auto simp: parse_cube_def split: sum.splits option.splits prod.splits)
  have "\<not> geo_multi geo" using assms(2) c by simp
  then have "n_mo = 1" using h by (simp add: read_mo_header_def)
  then show ?thesis using c by simp
qed


lemma suffix_number_inj:
  assumes "b @ CHR ''_'' # py_str (int i + 1) = b @ CHR ''_'' # py_str (int j + 1)"
  shows "i = j"
proof -
  have "py_str (int i + 1) = py_str (int j + 1)" using assms by simp
  then have "int i + 1 = int j + 1" by (rule py_str_inj)
  then show ?thesis by simp
qed

lemma assembled_names_distinct:
  assumes asm: "assemble lib c data scale
                  (grid_name_for force multi naming idx (cube_n_mo c)) = Inr grids"
      and single: "force = None \<Longrightarrow> \<not> multi \<Longrightarrow> cube_n_mo c = 1"
      and valid: "force = None \<Longrightarrow> multi \<Longrightarrow> naming = MO_INDICES \<Longrightarrow> idx \<noteq> [] \<Longrightarrow> distinct idx"
  shows "distinct (map g_name grids)"
proof -
  have len: "length grids = nat (cube_n_mo c)"
    and nm: "\<And>m. m < nat (cube_n_mo c) \<Longrightarrow>
              grid_name_for force multi naming idx (cube_n_mo c) m = Inr (g_name (grids ! m))"
    using assemble_names [OF asm] by simp_all
  have "g_name (grids ! i) \<noteq> g_name (grids ! j)"
    if ij: "i < j" "j < nat (cube_n_mo c)" for i j
  proof
    assume eq: "g_name (grids ! i) = g_name (grids ! j)"
    have i: "i < nat (cube_n_mo c)" using ij by simp
    have big: "1 < cube_n_mo c" using ij by linarith
    have ni: "grid_name_for force multi naming idx (cube_n_mo c) i = Inr (g_name (grids ! i))"
      using nm [OF i] .
    have nj: "grid_name_for force multi naming idx (cube_n_mo c) j = Inr (g_name (grids ! i))"
      using nm [OF ij(2)] eq by simp
    show False
    proof (cases force)
      case (Some b)
      then have "b @ CHR ''_'' # py_str (int i + 1) = b @ CHR ''_'' # py_str (int j + 1)"
        using ni nj big by (simp add: grid_name_for_def)
      then show False using suffix_number_inj ij(1) by blast
    next
      case None
      show False
      proof (cases multi)
        case False
        then show False using single None big by simp
      next
        case True
        show False
        proof (cases "naming = MO_INDICES \<and> idx \<noteq> []")
          case True
          then have d: "distinct idx" using valid None \<open>multi\<close> by simp
          have li: "i < length idx" and lj: "j < length idx"
            using ni nj None \<open>multi\<close> True by (auto simp: grid_name_for_def split: if_splits)
          have "py_str (idx ! i) = py_str (idx ! j)"
            using ni nj None \<open>multi\<close> True li lj by (simp add: grid_name_for_def)
          then have "idx ! i = idx ! j" by (rule py_str_inj)
          then show False using d li lj ij(1) by (simp add: nth_eq_iff_index_eq)
        next
          case False
          then have "py_str (int i + 1) = py_str (int j + 1)"
            using ni nj None \<open>multi\<close> by (auto simp: grid_name_for_def)
          then have "int i + 1 = int j + 1" by (rule py_str_inj)
          then show False using ij(1) by simp
        qed
      qed
    qed
  qed
  then have ord: "\<And>i j. i < j \<Longrightarrow> j < length grids \<Longrightarrow>
               g_name (grids ! i) \<noteq> g_name (grids ! j)"
    using len by simp
  have "g_name (grids ! i) \<noteq> g_name (grids ! j)"
    if "i < length grids" "j < length grids" "i \<noteq> j" for i j
  proof (cases "i < j")
    case True
    then show ?thesis using ord that by blast
  next
    case False
    then have "j < i" using that(3) by simp
    then have "g_name (grids ! j) \<noteq> g_name (grids ! i)" using ord that by blast
    then show ?thesis by simp
  qed
  then show ?thesis by (simp add: distinct_conv_nth)
qed



lemma read_vdb_grids_assembled:
  assumes "read_vdb_grids lib w p s nm force = Some (Inr grids, w')"
  shows "\<exists>c data multi idx.
           assemble lib c data s (grid_name_for force multi nm idx (cube_n_mo c)) = Inr grids"
proof -
  from assms obtain content c where
      "w_files w p = Some content" "parse_cube True (py_float lib) content = Some (Inr c)"
    by (auto simp: read_vdb_grids_def Let_def split: option.splits sum.splits)
  then show ?thesis using read_vdb_grids_assemble [OF _ _ assms] by blast
qed

lemma file_grids_forced:
  "distinct (map g_name (file_grids lib w s nm (p, Some b)))
   \<and> (\<forall>g \<in> set (file_grids lib w s nm (p, Some b)).
         g_name g = b \<or> (\<exists>x. g_name g = b @ CHR ''_'' # x))"
proof (cases "\<exists>grids w'. read_vdb_grids lib w p s nm (Some b) = Some (Inr grids, w')")
  case True
  then obtain grids w' where r: "read_vdb_grids lib w p s nm (Some b) = Some (Inr grids, w')"
    by blast
  then have fg: "file_grids lib w s nm (p, Some b) = grids" by (simp add: file_grids_def)
  obtain c data multi idx where
      asm: "assemble lib c data s (grid_name_for (Some b) multi nm idx (cube_n_mo c)) = Inr grids"
    using read_vdb_grids_assembled [OF r] by blast
  have "distinct (map g_name grids)"
    using assembled_names_distinct [OF asm] by simp
  moreover have "\<forall>g \<in> set grids. g_name g = b \<or> (\<exists>x. g_name g = b @ CHR ''_'' # x)"
    using forced_names_tagged [OF asm] by blast
  ultimately show ?thesis using fg by simp
next
  case False
  then have "file_grids lib w s nm (p, Some b) = []"
    by (auto simp: file_grids_def split: option.splits sum.splits)
  then show ?thesis by simp
qed

lemma read_all_some:
  assumes "read_all lib s nm acc w plan = Some (gs, w1)"
  shows "gs = acc @ concat (map (file_grids lib w s nm) plan)"
  using assms
proof (induction plan arbitrary: acc w)
  case Nil
  then show ?case by simp
next
  case (Cons entry rest)
  obtain p f where entry: "entry = (p, f)" by (cases entry)
  from Cons.prems entry obtain r wa where r: "read_vdb_grids lib w p s nm f = Some (r, wa)"
    by (cases "read_vdb_grids lib w p s nm f") auto
  have files: "w_files wa = w_files w" using read_vdb_grids_frame [OF r] by simp
  show ?case
  proof (cases r)
    case (Inl e)
    let ?wb = "print_event (ErrorReading p e) wa"
    have wb: "w_files ?wb = w_files w" using files by (simp add: print_event_def)
    have same: "map (file_grids lib ?wb s nm) rest = map (file_grids lib w s nm) rest"
      using wb by (intro map_cong refl file_grids_same_file) simp
    have "read_all lib s nm acc ?wb rest = Some (gs, w1)"
      using Cons.prems entry r Inl by simp
    then have "gs = acc @ concat (map (file_grids lib ?wb s nm) rest)" by (rule Cons.IH)
    moreover have "file_grids lib w s nm entry = []"
      using r Inl entry by (simp add: file_grids_def)
    ultimately show ?thesis using same by simp
  next
    case (Inr grids)
    have same: "map (file_grids lib wa s nm) rest = map (file_grids lib w s nm) rest"
      using files by (intro map_cong refl file_grids_same_file) simp
    have "read_all lib s nm (acc @ grids) wa rest = Some (gs, w1)"
      using Cons.prems entry r Inr by simp
    then have "gs = (acc @ grids) @ concat (map (file_grids lib wa s nm) rest)" by (rule Cons.IH)
    moreover have "file_grids lib w s nm entry = grids"
      using r Inr entry by (simp add: file_grids_def)
    ultimately show ?thesis using same by simp
  qed
qed

lemma batch_names_distinct:
  assumes "\<forall>e \<in> set plan. \<exists>v. snd e = Some (py_str v)"
      and "distinct (map snd plan)"
  shows "distinct (map g_name (concat (map (file_grids lib w s nm) plan)))"
  using assms
proof (induction plan)
  case Nil
  then show ?case by simp
next
  case (Cons e rest)
  obtain p v where e: "e = (p, Some (py_str v))" using Cons.prems(1) by (cases e) auto
  have ih: "distinct (map g_name (concat (map (file_grids lib w s nm) rest)))"
    using Cons by simp
  have own: "distinct (map g_name (file_grids lib w s nm e))"
    and tag: "\<forall>g \<in> set (file_grids lib w s nm e).
                g_name g = py_str v \<or> (\<exists>x. g_name g = py_str v @ CHR ''_'' # x)"
    using file_grids_forced [of lib w s nm p "py_str v"] e by simp_all
  have "g_name g \<noteq> g_name g'"
    if g: "g \<in> set (file_grids lib w s nm e)"
      and g': "g' \<in> set (concat (map (file_grids lib w s nm) rest))" for g g'
  proof -
    from g' obtain e' where e': "e' \<in> set rest" "g' \<in> set (file_grids lib w s nm e')" by auto
    obtain p' v' where pe': "e' = (p', Some (py_str v'))" using Cons.prems(1) e'(1) by (cases e') auto
    have "snd e \<noteq> snd e'" using Cons.prems(2) e'(1) by auto
    then have ne: "v \<noteq> v'" using e pe' by auto
    have "g_name g' = py_str v' \<or> (\<exists>x. g_name g' = py_str v' @ CHR ''_'' # x)"
      using file_grids_forced [of lib w s nm p' "py_str v'"] e'(2) pe' by simp
    then show ?thesis using tagged_names_differ [OF ne] tag g by blast
  qed
  then have "set (map g_name (file_grids lib w s nm e))
             \<inter> set (map g_name (concat (map (file_grids lib w s nm) rest))) = {}"
    by auto
  then show ?case using own ih by simp
qed

lemma sibling_entry_name:
  assumes "x \<in> set (sibling_entry base_dir prefix suffix f)"
  shows "fst (snd x) = py_str (snd (snd x))"
proof -
  from assms obtain d where d: "match_sequence prefix suffix f = Some d"
      "x = (path_join base_dir f, strip_zeros d, int (digits_value d))"
    by (cases "match_sequence prefix suffix f") (simp_all add: sibling_entry_def)
  have dd: "d \<noteq> []" "list_all is_digit d" using d(1) match_sequence_digits by blast+
  show ?thesis using nat_digits_digits_value [OF dd] d(2) by (simp add: py_str_nat)
qed

lemma sequence_overrides_distinct:
  fixes entries :: "(string \<times> string \<times> int) list"
  assumes "\<forall>x \<in> set entries. fst (snd x) = py_str (snd (snd x))"
      and "distinct (map (\<lambda>x. snd (snd x)) entries)"
      and "plan = map (\<lambda>x. (fst x, Some (fst (snd x)))) (sort_key (\<lambda>x. snd (snd x)) entries)"
  shows "(\<forall>e \<in> set plan. \<exists>v. snd e = Some (py_str v)) \<and> distinct (map snd plan)"
proof -
  let ?found = "sort_key (\<lambda>x. snd (snd x)) entries"
  have names: "\<forall>x \<in> set ?found. fst (snd x) = py_str (snd (snd x))" using assms(1) by simp
  have eq: "map snd plan = map (\<lambda>v. Some (py_str v)) (map (\<lambda>x. snd (snd x)) ?found)"
    unfolding assms(3) using names by (simp add: comp_def)
  have dv: "distinct (map (\<lambda>x. snd (snd x)) ?found)"
    using assms(2) by (simp add: distinct_map)
  have inj: "inj_on (\<lambda>v. Some (py_str v)) A" for A
    by (rule inj_onI) (simp add: py_str_inj)
  have "distinct (map (\<lambda>v. Some (py_str v)) ys)" if "distinct ys" for ys :: "int list"
    using that inj by (simp add: distinct_map)
  then have "distinct (map snd plan)" unfolding eq using dv by blast
  moreover have "\<forall>e \<in> set plan. \<exists>v. snd e = Some (py_str v)"
    unfolding assms(3) using names by auto
  ultimately show ?thesis by simp
qed


lemma resolve_plan_found:
  assumes "find_sequence_digits (basename filepath) = Some (prefix, digits, suffix)"
      and "w_listdir w (dirname filepath) = Some all_files"
      and "list_ex (\<lambda>f. match_sequence prefix suffix f \<noteq> None) all_files"
  shows "fst (resolve_plan w filepath True) =
           Inr (map (\<lambda>x. (fst x, Some (fst (snd x))))
                  (sort_key (\<lambda>x. snd (snd x))
                     (concat (map (sibling_entry (dirname filepath) prefix suffix) all_files))),
                path_join (dirname filepath) (name_base_of prefix @ ''all.vdb''))"
proof -
  define entries where
    "entries = concat (map (sibling_entry (dirname filepath) prefix suffix) all_files)"
  obtain f0 d0 where f0: "f0 \<in> set all_files" "match_sequence prefix suffix f0 = Some d0"
    using assms(3) by (auto simp: list_ex_iff)
  then have "sibling_entry (dirname filepath) prefix suffix f0 \<noteq> []"
    by (simp add: sibling_entry_def)
  then have "entries \<noteq> []" using f0(1) unfolding entries_def by auto
  then have "length (sort_key (\<lambda>x. snd (snd x)) entries) \<noteq> 0" by simp
  then have ne: "sort_key (\<lambda>x. snd (snd x)) entries \<noteq> []" by (simp only: length_0_conv not_False_eq_True)
  show ?thesis
    using resolve_plan_sequence [OF assms(1,2)] ne
    unfolding entries_def by (simp add: Let_def)
qed

lemma two_files_read:
  "map_option (\<lambda>r. map g_name (fst r))
     (read_all integer_lib 1 MO_INDICES []
        (world_of (Map.empty(''d/a1.cub'' \<mapsto> one_voxel, ''d/a2.cub'' \<mapsto> one_voxel))
           (\<lambda>_. Some [''a1.cub'', ''a2.cub'']))
        [(''d/a1.cub'', Some ''1''), (''d/a2.cub'', Some ''2'')])
   = Some [''1'', ''2'']"
  by code_simp

lemma two_files_plan:
  "fst (resolve_plan
          (world_of (Map.empty(''d/a1.cub'' \<mapsto> one_voxel, ''d/a2.cub'' \<mapsto> one_voxel))
             (\<lambda>_. Some [''a1.cub'', ''a2.cub'']) :: (int, int list list) world)
          ''d/a1.cub'' True)
   = Inr ([(''d/a1.cub'', Some ''1''), (''d/a2.cub'', Some ''2'')], ''d/a_all.vdb'')"
  by code_simp

text \<open>
  Claim C8, as amended. The grids of one valid file have pairwise different names; for
  naming by declared index that takes a file whose declared indices are pairwise
  different. In a sequence batch the grids of the whole batch have pairwise different
  names provided the matching directory entries have pairwise different numbers, that
  is, no two of them differ in leading zeros only.
\<close>

theorem grid_names_distinct:
  "(w_files w filepath = Some content
      \<and> parse_cube True (py_float lib) content = Some (Inr c)
      \<and> read_vdb_grids lib w filepath scale naming force = Some (Inr grids, w')
      \<and> (force = None \<and> geo_multi (cube_geo c) \<and> naming = MO_INDICES \<and> cube_indices c \<noteq> []
            \<longrightarrow> distinct (cube_indices c))
      \<longrightarrow> distinct (map g_name grids))
   \<and> (find_sequence_digits (basename seq_path) = Some (prefix, digits, suffix)
      \<and> w_listdir w_a (dirname seq_path) = Some all_files
      \<and> list_ex (\<lambda>f. match_sequence prefix suffix f \<noteq> None) all_files
      \<and> distinct (map (\<lambda>x. snd (snd x))
                    (concat (map (sibling_entry (dirname seq_path) prefix suffix) all_files)))
      \<and> fst (resolve_plan w_a seq_path True) = Inr (plan, out)
      \<and> read_all lib scale naming [] w_b plan = Some (all_grids, w_c)
      \<longrightarrow> distinct (map g_name all_grids))"
proof (intro conjI impI)
  assume a: "w_files w filepath = Some content
      \<and> parse_cube True (py_float lib) content = Some (Inr c)
      \<and> read_vdb_grids lib w filepath scale naming force = Some (Inr grids, w')
      \<and> (force = None \<and> geo_multi (cube_geo c) \<and> naming = MO_INDICES \<and> cube_indices c \<noteq> []
            \<longrightarrow> distinct (cube_indices c))"
  then have asm: "assemble lib c (np_fromstring lib (cube_content c)) scale
           (grid_name_for force (geo_multi (cube_geo c)) naming (cube_indices c) (cube_n_mo c))
         = Inr grids"
    using read_vdb_grids_assemble by blast
  show "distinct (map g_name grids)"
  proof (rule assembled_names_distinct [OF asm])
    assume "force = None" "\<not> geo_multi (cube_geo c)"
    then show "cube_n_mo c = 1" using parse_cube_single_framing a by blast
  next
    assume "force = None" "geo_multi (cube_geo c)" "naming = MO_INDICES" "cube_indices c \<noteq> []"
    then show "distinct (cube_indices c)" using a by blast
  qed
next
  assume b: "find_sequence_digits (basename seq_path) = Some (prefix, digits, suffix)
      \<and> w_listdir w_a (dirname seq_path) = Some all_files
      \<and> list_ex (\<lambda>f. match_sequence prefix suffix f \<noteq> None) all_files
      \<and> distinct (map (\<lambda>x. snd (snd x))
                    (concat (map (sibling_entry (dirname seq_path) prefix suffix) all_files)))
      \<and> fst (resolve_plan w_a seq_path True) = Inr (plan, out)
      \<and> read_all lib scale naming [] w_b plan = Some (all_grids, w_c)"
  define entries where
    "entries = concat (map (sibling_entry (dirname seq_path) prefix suffix) all_files)"
  have h: "find_sequence_digits (basename seq_path) = Some (prefix, digits, suffix)"
      "w_listdir w_a (dirname seq_path) = Some all_files"
      "list_ex (\<lambda>f. match_sequence prefix suffix f \<noteq> None) all_files"
    using b by simp_all
  have plan: "plan = map (\<lambda>x. (fst x, Some (fst (snd x)))) (sort_key (\<lambda>x. snd (snd x)) entries)"
    using resolve_plan_found [OF h] b unfolding entries_def by simp
  have names: "\<forall>x \<in> set entries. fst (snd x) = py_str (snd (snd x))"
    unfolding entries_def using sibling_entry_name by fastforce
  have dv: "distinct (map (\<lambda>x. snd (snd x)) entries)" using b unfolding entries_def by simp
  have ov: "(\<forall>e \<in> set plan. \<exists>v. snd e = Some (py_str v)) \<and> distinct (map snd plan)"
    using sequence_overrides_distinct [OF names dv plan] .
  have "all_grids = [] @ concat (map (file_grids lib w_b scale naming) plan)"
    using b read_all_some by blast
  then show "distinct (map g_name all_grids)"
    using batch_names_distinct [of plan lib w_b scale naming] ov by simp
qed

theorem grid_names_distinct_witness:
  "(\<exists>grids w'.
      read_vdb_grids integer_lib (world_of (Map.empty(''m.cub'' \<mapsto> orbitals_5_7)) (\<lambda>_. None))
        ''m.cub'' 1 MO_INDICES None = Some (Inr grids, w')
      \<and> distinct (map g_name grids))
   \<and> (\<exists>all_grids w3.
      read_all integer_lib 1 MO_INDICES []
        (world_of (Map.empty(''d/a1.cub'' \<mapsto> one_voxel, ''d/a2.cub'' \<mapsto> one_voxel))
           (\<lambda>_. Some [''a1.cub'', ''a2.cub'']))
        [(''d/a1.cub'', Some ''1''), (''d/a2.cub'', Some ''2'')] = Some (all_grids, w3)
      \<and> distinct (map g_name all_grids))"
proof -
  let ?W = "world_of (Map.empty(''m.cub'' \<mapsto> orbitals_5_7)) (\<lambda>_. None) :: (int, int list list) world"
  let ?V = "world_of (Map.empty(''d/a1.cub'' \<mapsto> one_voxel, ''d/a2.cub'' \<mapsto> one_voxel))
             (\<lambda>_. Some [''a1.cub'', ''a2.cub'']) :: (int, int list list) world"
  let ?c = "\<lparr>cube_geo =
                  \<lparr>geo_multi = True, geo_atoms = 1, geo_origin = [0, 0, 0 :: int],
                   geo_n1 = 1, geo_v1 = [1, 0, 0], geo_n2 = 1, geo_v2 = [0, 1, 0],
                   geo_n3 = 2, geo_v3 = [0, 0, 1]\<rparr>,
                cube_n_mo = 2, cube_indices = [5, 7],
                cube_content = ''1 2 3 4\<newline>''\<rparr>"
  let ?plan = "[(''d/a1.cub'', Some ''1''), (''d/a2.cub'', Some ''2'')]"
  have f: "w_files ?W ''m.cub'' = Some orbitals_5_7" by (simp add: world_of_def)
  have p: "parse_cube True (py_float integer_lib) orbitals_5_7 = Some (Inr ?c)"
    using orbitals_5_7_parsed by (simp add: integer_lib_def)
  obtain grids w' where r:
      "read_vdb_grids integer_lib ?W ''m.cub'' 1 MO_INDICES None = Some (Inr grids, w')"
    using orbitals_5_7_grids by auto
  have v: "(None = (None :: string option) \<and> geo_multi (cube_geo ?c) \<and> MO_INDICES = MO_INDICES
             \<and> cube_indices ?c \<noteq> [] \<longrightarrow> distinct (cube_indices ?c))"
    by simp
  have one: "distinct (map g_name grids)"
    using grid_names_distinct [where w = ?W and filepath = "''m.cub''" and content = orbitals_5_7
        and lib = integer_lib and c = ?c and scale = 1 and naming = MO_INDICES and force = None
        and grids = grids and w' = w', THEN conjunct1] f p r v
    by blast
  have h1: "find_sequence_digits (basename ''d/a1.cub'') = Some (''a'', ''1'', ''.cub'')"
    by code_simp
  have h2: "w_listdir ?V (dirname ''d/a1.cub'') = Some [''a1.cub'', ''a2.cub'']"
    by (simp add: world_of_def)
  have h3: "list_ex (\<lambda>f. match_sequence ''a'' ''.cub'' f \<noteq> None) [''a1.cub'', ''a2.cub'']"
    by code_simp
  have h4: "distinct (map (\<lambda>x. snd (snd x))
              (concat (map (sibling_entry (dirname ''d/a1.cub'') ''a'' ''.cub'')
                 [''a1.cub'', ''a2.cub''])))"
    by code_simp
  obtain all_grids w3 where ra:
      "read_all integer_lib 1 MO_INDICES [] ?V ?plan = Some (all_grids, w3)"
    using two_files_read by auto
  have two: "distinct (map g_name all_grids)"
    using grid_names_distinct [where seq_path = "''d/a1.cub''" and prefix = "''a''"
        and digits = "''1''" and suffix = "''.cub''" and w_a = ?V
        and all_files = "[''a1.cub'', ''a2.cub'']" and plan = ?plan and out = "''d/a_all.vdb''"
        and lib = integer_lib and scale = 1 and naming = MO_INDICES and w_b = ?V
        and all_grids = all_grids and w_c = w3, THEN conjunct2]
      h1 h2 h3 h4 two_files_plan ra
    by blast
  show ?thesis using r one ra two by blast
qed

text \<open>
  Claim C8 as stated fails across files: a1.cub and a01.cub both match the pattern
  of a1.cub, both get the forced name 1 (the zero padding is removed on purpose), and
  the batch holds two grids named 1.
\<close>

theorem grid_names_distinct_counterexample:
  "map_option (\<lambda>r. (fst r, map (\<lambda>x. (fst x, map g_name (snd x))) (w_written (snd r))))
     (load_cube integer_lib
        (world_of (Map.empty(''d/a1.cub'' \<mapsto> one_voxel, ''d/a01.cub'' \<mapsto> one_voxel))
           (\<lambda>_. Some [''a1.cub'', ''a01.cub'']))
        ''d/a1.cub'' 1 MO_INDICES True)
   = Some (Inr (), [(''d/a_all.vdb'', [''1'', ''1''])])"
  by code_simp

end
